theory Spec2Isabelle
  imports Main "HOL-Library.Word"
begin

unbundle bit_operations_syntax

section \<open>Machine types\<close>

text \<open>
  The firmware runs on a Kinetis K70 (ARM Cortex-M4, little-endian, 32-bit pointers).
  The fixed-width C integers are words of the same width.
\<close>

type_synonym uint8_t = "8 word"
type_synonym uint16_t = "16 word"
type_synonym uint32_t = "32 word"
type_synonym uint64_t = "64 word"

section \<open>FIFO.c: the byte-wide ring buffer\<close>

text \<open>
  Modelled from the spec: the declaration of \<^verbatim>\<open>TFIFO\<close>, which is in FIFO.h and not
  among the sources ("an owned fixed-size array of bytes, a start index, an end index,
  and a count"). The record has the four members FIFO.c uses, under the names FIFO.c
  uses. \<^verbatim>\<open>FIFO_SIZE\<close>, from the same header, is a parameter of every operation.
  The three counters are unsigned and FIFO.c keeps them at most \<^verbatim>\<open>FIFO_SIZE\<close>, so
  they are natural numbers here; \<^verbatim>\<open>Buffer\<close> is the array
  \<^verbatim>\<open>uint8_t Buffer[FIFO_SIZE]\<close>, a list whose length is \<^verbatim>\<open>FIFO_SIZE\<close> in every
  well-formed buffer (see \<open>fifo_wf\<close>). FIFO.c indexes the array with \<open>End\<close> and
  \<open>Start\<close> unchecked; every theorem that depends on the bytes stored assumes
  \<open>fifo_wf\<close>, under which both indices are inside the array.
\<close>

record TFIFO =
  Start :: nat
  End :: nat
  NbBytes :: nat
  Buffer :: "uint8_t list"

definition FIFO_Init :: "TFIFO \<Rightarrow> TFIFO" where
  "FIFO_Init FIFO = FIFO\<lparr>Start := 0, End := 0, NbBytes := 0\<rparr>"

text \<open>
  \<^verbatim>\<open>EnterCritical\<close> and \<^verbatim>\<open>ExitCritical\<close> mask and unmask interrupts; in this
  sequential model each call runs to its end, so they leave no trace in the state.
  \<^verbatim>\<open>FIFO_Put\<close> returns the C result together with the buffer after the call.
\<close>

definition FIFO_Put :: "nat \<Rightarrow> TFIFO \<Rightarrow> uint8_t \<Rightarrow> bool \<times> TFIFO" where
  "FIFO_Put FIFO_SIZE FIFO data =
     (if NbBytes FIFO < FIFO_SIZE
      then (True, FIFO\<lparr>Buffer := (Buffer FIFO)[End FIFO := data],
                        NbBytes := NbBytes FIFO + 1,
                        End := (End FIFO + 1) mod FIFO_SIZE\<rparr>)
      else (False, FIFO))"

text \<open>
  \<^verbatim>\<open>FIFO_Get\<close> writes \<^verbatim>\<open>*dataPtr\<close> only when it returns true: the result
  \<open>Some b\<close> stands for "returned true and stored \<open>b\<close>", \<open>None\<close> for "returned
  false, \<^verbatim>\<open>*dataPtr\<close> untouched".
\<close>

definition FIFO_Get :: "nat \<Rightarrow> TFIFO \<Rightarrow> uint8_t option \<times> TFIFO" where
  "FIFO_Get FIFO_SIZE FIFO =
     (if NbBytes FIFO > 0
      then (Some (Buffer FIFO ! Start FIFO),
            FIFO\<lparr>NbBytes := NbBytes FIFO - 1,
                 Start := (Start FIFO + 1) mod FIFO_SIZE\<rparr>)
      else (None, FIFO))"

text \<open>Sequences of calls, each on the buffer the previous one left.\<close>

fun FIFO_Put_all :: "nat \<Rightarrow> TFIFO \<Rightarrow> uint8_t list \<Rightarrow> bool list \<times> TFIFO" where
  "FIFO_Put_all FIFO_SIZE FIFO [] = ([], FIFO)"
| "FIFO_Put_all FIFO_SIZE FIFO (b # bs) =
     (case FIFO_Put FIFO_SIZE FIFO b of (r, FIFO') \<Rightarrow>
        (case FIFO_Put_all FIFO_SIZE FIFO' bs of (rs, FIFO'') \<Rightarrow> (r # rs, FIFO'')))"

fun FIFO_Get_times :: "nat \<Rightarrow> TFIFO \<Rightarrow> nat \<Rightarrow> uint8_t option list \<times> TFIFO" where
  "FIFO_Get_times FIFO_SIZE FIFO 0 = ([], FIFO)"
| "FIFO_Get_times FIFO_SIZE FIFO (Suc n) =
     (case FIFO_Get FIFO_SIZE FIFO of (r, FIFO') \<Rightarrow>
        (case FIFO_Get_times FIFO_SIZE FIFO' n of (rs, FIFO'') \<Rightarrow> (r # rs, FIFO'')))"

text \<open>
  The invariant FIFO.c maintains from \<^verbatim>\<open>FIFO_Init\<close> on, and the queue a buffer
  stands for: the \<open>NbBytes\<close> bytes from \<open>Start\<close> on, wrapping at \<open>FIFO_SIZE\<close>.
\<close>

definition fifo_wf :: "nat \<Rightarrow> TFIFO \<Rightarrow> bool" where
  "fifo_wf FIFO_SIZE FIFO \<longleftrightarrow>
     length (Buffer FIFO) = FIFO_SIZE \<and> Start FIFO < FIFO_SIZE \<and>
     NbBytes FIFO \<le> FIFO_SIZE \<and>
     End FIFO = (Start FIFO + NbBytes FIFO) mod FIFO_SIZE"

definition fifo_contents :: "nat \<Rightarrow> TFIFO \<Rightarrow> uint8_t list" where
  "fifo_contents FIFO_SIZE FIFO =
     map (\<lambda>k. Buffer FIFO ! ((Start FIFO + k) mod FIFO_SIZE)) [0..<NbBytes FIFO]"

section \<open>UART.c and packet.c: the serial port and the 5-byte packets\<close>

text \<open>
  The globals of UART.c and packet.c. Of the UART registers only the transmit-interrupt
  enable bit of \<^verbatim>\<open>UART2_C2\<close> is touched by the functions below. \<^verbatim>\<open>ByteCount\<close>
  is a C \<^verbatim>\<open>int\<close>; \<^verbatim>\<open>Packet_Get\<close> keeps it between 0 and 4, far from overflow.
\<close>

record tower =
  RxFIFO :: TFIFO
  TxFIFO :: TFIFO
  UART2_C2 :: uint8_t
  Packet_Command :: uint8_t
  Packet_Parameter1 :: uint8_t
  Packet_Parameter2 :: uint8_t
  Packet_Parameter3 :: uint8_t
  Packet_Checksum :: uint8_t
  ByteCount :: int

text \<open>\<^verbatim>\<open>UART_C2_TIE_MASK\<close> comes from the device header MK70F12.h: bit 7 of C2.\<close>

definition UART_C2_TIE_MASK :: uint8_t where
  "UART_C2_TIE_MASK = 0x80"

definition UART_InChar :: "nat \<Rightarrow> tower \<Rightarrow> uint8_t option \<times> tower" where
  "UART_InChar FIFO_SIZE s =
     (case FIFO_Get FIFO_SIZE (RxFIFO s) of (r, FIFO') \<Rightarrow> (r, s\<lparr>RxFIFO := FIFO'\<rparr>))"

definition UART_OutChar :: "nat \<Rightarrow> tower \<Rightarrow> uint8_t \<Rightarrow> bool \<times> tower" where
  "UART_OutChar FIFO_SIZE s data =
     (case FIFO_Put FIFO_SIZE (TxFIFO s) data of (status, FIFO') \<Rightarrow>
        (if status
         then (status, s\<lparr>TxFIFO := FIFO', UART2_C2 := UART2_C2 s OR UART_C2_TIE_MASK\<rparr>)
         else (status, s\<lparr>TxFIFO := FIFO'\<rparr>)))"

definition calculateChecksum :: "uint8_t \<Rightarrow> uint8_t \<Rightarrow> uint8_t \<Rightarrow> uint8_t \<Rightarrow> uint8_t" where
  "calculateChecksum command parameter1 parameter2 parameter3 =
     command XOR parameter1 XOR parameter2 XOR parameter3"

text \<open>
  \<^verbatim>\<open>Packet_Get\<close>: the switch on \<^verbatim>\<open>ByteCount\<close>, case by case. Cases 0 to 3 break
  out of the switch to the increment; case 4 returns from inside it. The four
  assignments of the shift run one after the other, as in the source.
\<close>

definition Packet_Get :: "nat \<Rightarrow> tower \<Rightarrow> bool \<times> tower" where
  "Packet_Get FIFO_SIZE s =
     (case UART_InChar FIFO_SIZE s of
        (None, s0) \<Rightarrow> (False, s0)
      | (Some data, s0) \<Rightarrow>
          (if ByteCount s0 = 0 then
             (False, s0\<lparr>Packet_Command := data, ByteCount := ByteCount s0 + 1\<rparr>)
           else if ByteCount s0 = 1 then
             (False, s0\<lparr>Packet_Parameter1 := data, ByteCount := ByteCount s0 + 1\<rparr>)
           else if ByteCount s0 = 2 then
             (False, s0\<lparr>Packet_Parameter2 := data, ByteCount := ByteCount s0 + 1\<rparr>)
           else if ByteCount s0 = 3 then
             (False, s0\<lparr>Packet_Parameter3 := data, ByteCount := ByteCount s0 + 1\<rparr>)
           else if ByteCount s0 = 4 then
             (let s1 = s0\<lparr>Packet_Checksum := data\<rparr> in
              if calculateChecksum (Packet_Command s1) (Packet_Parameter1 s1)
                   (Packet_Parameter2 s1) (Packet_Parameter3 s1) = Packet_Checksum s1
              then (True, s1\<lparr>ByteCount := 0\<rparr>)
              else
                (let s2 = s1\<lparr>Packet_Command := Packet_Parameter1 s1\<rparr>;
                     s3 = s2\<lparr>Packet_Parameter1 := Packet_Parameter2 s2\<rparr>;
                     s4 = s3\<lparr>Packet_Parameter2 := Packet_Parameter3 s3\<rparr>;
                     s5 = s4\<lparr>Packet_Parameter3 := Packet_Checksum s4\<rparr>
                 in (False, s5)))
           else (False, s0\<lparr>ByteCount := ByteCount s0 + 1\<rparr>)))"

fun Packet_Get_times :: "nat \<Rightarrow> tower \<Rightarrow> nat \<Rightarrow> bool list \<times> tower" where
  "Packet_Get_times FIFO_SIZE s 0 = ([], s)"
| "Packet_Get_times FIFO_SIZE s (Suc n) =
     (case Packet_Get FIFO_SIZE s of (r, s') \<Rightarrow>
        (case Packet_Get_times FIFO_SIZE s' n of (rs, s'') \<Rightarrow> (r # rs, s'')))"

text \<open>
  \<^verbatim>\<open>Packet_Put\<close>: the five \<^verbatim>\<open>UART_OutChar\<close> calls are joined by \<^verbatim>\<open>&&\<close>, which
  stops at the first call that returns false.
\<close>

definition Packet_Put ::
    "nat \<Rightarrow> tower \<Rightarrow> uint8_t \<Rightarrow> uint8_t \<Rightarrow> uint8_t \<Rightarrow> uint8_t \<Rightarrow> bool \<times> tower" where
  "Packet_Put FIFO_SIZE s command parameter1 parameter2 parameter3 =
     (case UART_OutChar FIFO_SIZE s command of (r1, s1) \<Rightarrow>
      if \<not> r1 then (False, s1) else
      case UART_OutChar FIFO_SIZE s1 parameter1 of (r2, s2) \<Rightarrow>
      if \<not> r2 then (False, s2) else
      case UART_OutChar FIFO_SIZE s2 parameter2 of (r3, s3) \<Rightarrow>
      if \<not> r3 then (False, s3) else
      case UART_OutChar FIFO_SIZE s3 parameter3 of (r4, s4) \<Rightarrow>
      if \<not> r4 then (False, s4) else
      UART_OutChar FIFO_SIZE s4
        (calculateChecksum command parameter1 parameter2 parameter3))"

section \<open>Flash.c: the non-volatile storage engine\<close>

text \<open>
  Modelled from the spec: \<^verbatim>\<open>FLASH_SIZE\<close> and \<^verbatim>\<open>FLASH_DATA_START\<close>, which are
  defined in Flash.h and not among the sources. The spec has the whole mirror of the
  sector written back by one program command, which carries one 8-byte data phrase: the
  sector has 8 bytes. The sources agree: \<^verbatim>\<open>ProgramPhrase\<close> programs exactly
  \<^verbatim>\<open>data[0]\<close> to \<^verbatim>\<open>data[7]\<close>, and main.c accepts the byte indices below 0x08 and
  calls 0x08 "the flash size". The base is the "fixed base address" that
  \<^verbatim>\<open>LaunchCommand\<close> writes into FCCOB1 to FCCOB3 (0x08, 0x00, 0x00).
\<close>

definition FLASH_DATA_START :: uint32_t where
  "FLASH_DATA_START = 0x00080000"

definition FLASH_SIZE :: nat where
  "FLASH_SIZE = 8"

definition PROGRAM_PHRASE_COMMAND :: uint8_t where
  "PROGRAM_PHRASE_COMMAND = 0x07"

definition ERASE_FLASH_SECTOR_COMMAND :: uint8_t where
  "ERASE_FLASH_SECTOR_COMMAND = 0x09"

record TFCCOB =
  command :: uint8_t
  data :: "uint8_t list"

text \<open>
  The state the flash functions work on: the global \<^verbatim>\<open>CommonCommandObject\<close>, the
  registers of the flash controller (the command-complete flag CCIF of
  \<^verbatim>\<open>FTFE_FSTAT\<close> and the twelve FCCOB bytes) and the \<^verbatim>\<open>FLASH_SIZE\<close> bytes of
  flash at \<^verbatim>\<open>FLASH_DATA_START\<close>.
\<close>

record flash =
  CommonCommandObject :: TFCCOB
  FTFE_FSTAT_CCIF :: bool
  FTFE_FCCOB0 :: uint8_t
  FTFE_FCCOB1 :: uint8_t
  FTFE_FCCOB2 :: uint8_t
  FTFE_FCCOB3 :: uint8_t
  FTFE_FCCOB4 :: uint8_t
  FTFE_FCCOB5 :: uint8_t
  FTFE_FCCOB6 :: uint8_t
  FTFE_FCCOB7 :: uint8_t
  FTFE_FCCOB8 :: uint8_t
  FTFE_FCCOB9 :: uint8_t
  FTFE_FCCOBA :: uint8_t
  FTFE_FCCOBB :: uint8_t
  sector :: "uint8_t list"

text \<open>
  \<^verbatim>\<open>_FB(FLASH_DATA_START+i)\<close>: the byte of flash at offset \<open>i\<close>. Flash.c reads
  flash only at offsets it has tested to be below \<^verbatim>\<open>FLASH_SIZE\<close>.
\<close>

definition FB :: "flash \<Rightarrow> nat \<Rightarrow> uint8_t" where
  "FB s i = sector s ! i"

text \<open>
  Modelled from the spec: the flash controller itself, which is hardware. Writing 1 to
  CCIF launches the command held in FCCOB0 at the address in FCCOB1 to FCCOB3. The
  erase command returns the sector to the all-1-bits state. The program command
  programs one 8-byte phrase; the parameter bytes are big-endian within each 32-bit
  half (most significant data in the lowest-numbered FCCOB), so FCCOB7 goes to offset 0
  and FCCOB4 to offset 3, FCCOBB to offset 4 and FCCOB8 to offset 7; programming can
  only turn bits from 1 to 0. The command always completes, and CCIF is set again.
\<close>

definition FTFE_phrase :: "flash \<Rightarrow> uint8_t list" where
  "FTFE_phrase s =
     [FTFE_FCCOB7 s, FTFE_FCCOB6 s, FTFE_FCCOB5 s, FTFE_FCCOB4 s,
      FTFE_FCCOBB s, FTFE_FCCOBA s, FTFE_FCCOB9 s, FTFE_FCCOB8 s]"

definition FTFE_execute :: "flash \<Rightarrow> flash" where
  "FTFE_execute s =
     (if [FTFE_FCCOB1 s, FTFE_FCCOB2 s, FTFE_FCCOB3 s] \<noteq> [0x08, 0x00, 0x00]
      then s\<lparr>FTFE_FSTAT_CCIF := True\<rparr>
      else if FTFE_FCCOB0 s = 0x09
      then s\<lparr>sector := replicate FLASH_SIZE 0xFF, FTFE_FSTAT_CCIF := True\<rparr>
      else if FTFE_FCCOB0 s = 0x07
      then s\<lparr>sector := map2 (AND) (sector s) (FTFE_phrase s), FTFE_FSTAT_CCIF := True\<rparr>
      else s\<lparr>FTFE_FSTAT_CCIF := True\<rparr>)"

text \<open>
  \<^verbatim>\<open>while (!(FTFE_FSTAT & FTFE_FSTAT_CCIF_MASK));\<close> has an empty body and nothing in
  this model changes the flag while it polls: it falls through when CCIF is set and
  never returns (\<open>None\<close>) when it is clear.
\<close>

definition wait_CCIF :: "flash \<Rightarrow> flash option" where
  "wait_CCIF s = (if FTFE_FSTAT_CCIF s then Some s else None)"

definition SetupCommand :: "TFCCOB \<Rightarrow> uint8_t \<Rightarrow> TFCCOB" where
  "SetupCommand commandCommonObject cmd = commandCommonObject\<lparr>command := cmd\<rparr>"

definition ProgramPhrase :: "flash \<Rightarrow> flash" where
  "ProgramPhrase s =
     (let s1 = s\<lparr>FTFE_FCCOB4 := data (CommonCommandObject s) ! 3\<rparr>;
          s2 = s1\<lparr>FTFE_FCCOB5 := data (CommonCommandObject s1) ! 2\<rparr>;
          s3 = s2\<lparr>FTFE_FCCOB6 := data (CommonCommandObject s2) ! 1\<rparr>;
          s4 = s3\<lparr>FTFE_FCCOB7 := data (CommonCommandObject s3) ! 0\<rparr>;
          s5 = s4\<lparr>FTFE_FCCOB8 := data (CommonCommandObject s4) ! 7\<rparr>;
          s6 = s5\<lparr>FTFE_FCCOB9 := data (CommonCommandObject s5) ! 6\<rparr>;
          s7 = s6\<lparr>FTFE_FCCOBA := data (CommonCommandObject s6) ! 5\<rparr>
      in s7\<lparr>FTFE_FCCOBB := data (CommonCommandObject s7) ! 4\<rparr>)"

text \<open>
  \<^verbatim>\<open>LaunchCommand\<close> reads the command from the object it is given (the global one
  from the write functions, a local one from \<^verbatim>\<open>Flash_Erase\<close>), while
  \<^verbatim>\<open>ProgramPhrase\<close> always reads the data of the global object.
\<close>

definition LaunchCommand :: "flash \<Rightarrow> TFCCOB \<Rightarrow> (bool \<times> flash) option" where
  "LaunchCommand s cco =
     (case wait_CCIF s of None \<Rightarrow> None
      | Some s0 \<Rightarrow>
          (let s1 = s0\<lparr>FTFE_FCCOB0 := command cco\<rparr>;
               s2 = s1\<lparr>FTFE_FCCOB1 := 0x08\<rparr>;
               s3 = s2\<lparr>FTFE_FCCOB2 := 0x00\<rparr>;
               s4 = s3\<lparr>FTFE_FCCOB3 := 0x00\<rparr>
           in if command cco = PROGRAM_PHRASE_COMMAND then
                (case wait_CCIF (FTFE_execute (ProgramPhrase s4)) of
                   None \<Rightarrow> None | Some s5 \<Rightarrow> Some (True, s5))
              else if command cco = ERASE_FLASH_SECTOR_COMMAND then
                (case wait_CCIF (FTFE_execute s4) of
                   None \<Rightarrow> None | Some s5 \<Rightarrow> Some (True, s5))
              else Some (False, s4)))"

text \<open>The local command object of \<^verbatim>\<open>Flash_Erase\<close>; its data is never read.\<close>

definition Flash_Erase :: "flash \<Rightarrow> (bool \<times> flash) option" where
  "Flash_Erase s =
     LaunchCommand s
       (SetupCommand \<lparr>command = 0, data = replicate FLASH_SIZE 0\<rparr> ERASE_FLASH_SECTOR_COMMAND)"

function FlashBackup_loop :: "nat \<Rightarrow> flash \<Rightarrow> flash" where
  "FlashBackup_loop i s =
     (if i < FLASH_SIZE
      then FlashBackup_loop (i + 1)
             (s\<lparr>CommonCommandObject :=
                  (CommonCommandObject s)\<lparr>data := (data (CommonCommandObject s))[i := FB s i]\<rparr>\<rparr>)
      else s)"
  by pat_completeness auto
termination
  by (relation "measure (\<lambda>(i, s). FLASH_SIZE - i)") auto

declare FlashBackup_loop.simps [simp del]

definition FlashBackup :: "flash \<Rightarrow> bool \<times> flash" where
  "FlashBackup s = (True, FlashBackup_loop 0 s)"

text \<open>
  The two loops of \<^verbatim>\<open>Flash_AllocateVar\<close>. The inner one returns the flag
  \<^verbatim>\<open>addressFound\<close> as it leaves it; the outer one returns the flag and
  \<^verbatim>\<open>addressIndex\<close>. The flag comes in from outside and is only ever set to false.
  The outer loop is entered with \<open>size'\<close> 1, 2 or 4 only; the test \<open>0 < size'\<close>
  is there for the recursion to be well-founded and is true at every call.
\<close>

function alloc_inner :: "flash \<Rightarrow> nat \<Rightarrow> nat \<Rightarrow> nat \<Rightarrow> bool \<Rightarrow> bool" where
  "alloc_inner s size' i j addressFound =
     (if j < size'
      then (if i + j \<ge> FLASH_SIZE \<or> FB s (i + j) \<noteq> 0xFF
            then False
            else alloc_inner s size' i (j + 1) addressFound)
      else addressFound)"
  by pat_completeness auto
termination
  by (relation "measure (\<lambda>(s, size', i, j, addressFound). size' - j)") auto

declare alloc_inner.simps [simp del]

function alloc_outer :: "flash \<Rightarrow> nat \<Rightarrow> nat \<Rightarrow> bool \<Rightarrow> uint8_t \<Rightarrow> bool \<times> uint8_t" where
  "alloc_outer s size' i addressFound addressIndex =
     (if i < FLASH_SIZE \<and> 0 < size'
      then (if FB s i = 0xFF
            then (let addressFound' = alloc_inner s size' i 1 addressFound
                  in if addressFound'
                     then (addressFound', of_nat i)
                     else alloc_outer s size' (i + size') addressFound' addressIndex)
            else alloc_outer s size' (i + size') addressFound addressIndex)
      else (addressFound, addressIndex))"
  by pat_completeness auto
termination
  by (relation "measure (\<lambda>(s, size', i, addressFound, addressIndex). FLASH_SIZE - i)") auto

declare alloc_outer.simps [simp del]

text \<open>
  \<^verbatim>\<open>Flash_AllocateVar\<close> returns the C result and the value of \<^verbatim>\<open>*variable\<close> after
  the call (the second argument is its value before). \<^verbatim>\<open>addressIndex\<close> starts as
  \<^verbatim>\<open>(uint8_t) -1\<close>, which is 255.
\<close>

definition Flash_AllocateVar :: "flash \<Rightarrow> uint32_t \<Rightarrow> uint8_t \<Rightarrow> bool \<times> uint32_t" where
  "Flash_AllocateVar s variable size' =
     (if size' = 1 \<or> size' = 2 \<or> size' = 4
      then (case alloc_outer s (unat size') 0 True (- 1) of
              (addressFound, addressIndex) \<Rightarrow>
                if addressFound
                then (True, FLASH_DATA_START + ucast addressIndex)
                else (False, variable))
      else (False, variable))"

text \<open>
  The unions of types.h on the little-endian core: \<^verbatim>\<open>s.Lo\<close> is the half at the lower
  address, the low-order half of \<^verbatim>\<open>l\<close>, and \<^verbatim>\<open>s.Hi\<close> the high-order half.
\<close>

definition Lo16 :: "uint16_t \<Rightarrow> uint8_t" where "Lo16 l = ucast l"
definition Hi16 :: "uint16_t \<Rightarrow> uint8_t" where "Hi16 l = ucast (drop_bit 8 l)"
definition Lo32 :: "uint32_t \<Rightarrow> uint16_t" where "Lo32 l = ucast l"
definition Hi32 :: "uint32_t \<Rightarrow> uint16_t" where "Hi32 l = ucast (drop_bit 16 l)"
definition Lo64 :: "uint64_t \<Rightarrow> uint32_t" where "Lo64 l = ucast l"
definition Hi64 :: "uint64_t \<Rightarrow> uint32_t" where "Hi64 l = ucast (drop_bit 32 l)"

text \<open>
  \<^verbatim>\<open>uint8_t index = (uint32_t) address - FLASH_DATA_START\<close>: a 32-bit difference cut
  down to its low 8 bits. Being unsigned, \<open>index\<close> is never below 0, so the first
  disjunct of the bounds test is always false.
\<close>

definition flash_index :: "uint32_t \<Rightarrow> uint8_t" where
  "flash_index address = ucast (address - FLASH_DATA_START)"

text \<open>\<^verbatim>\<open>CommonCommandObject.data[k] = b\<close> on the global object.\<close>

definition set_data :: "flash \<Rightarrow> nat \<Rightarrow> uint8_t \<Rightarrow> flash" where
  "set_data s k b =
     s\<lparr>CommonCommandObject :=
         (CommonCommandObject s)\<lparr>data := (data (CommonCommandObject s))[k := b]\<rparr>\<rparr>"

text \<open>
  The tail shared by the four write functions: erase the sector, then launch the
  program command of the global object; \<^verbatim>\<open>status &= ...\<close> evaluates both calls.
\<close>

definition erase_and_program :: "bool \<Rightarrow> flash \<Rightarrow> (bool \<times> flash) option" where
  "erase_and_program status s =
     (case Flash_Erase s of None \<Rightarrow> None
      | Some (r1, s1) \<Rightarrow>
          (case LaunchCommand s1 (CommonCommandObject s1) of None \<Rightarrow> None
           | Some (r2, s2) \<Rightarrow> Some ((status \<and> r1) \<and> r2, s2)))"

definition Flash_Write64 :: "flash \<Rightarrow> uint32_t \<Rightarrow> uint64_t \<Rightarrow> (bool \<times> flash) option" where
  "Flash_Write64 s address val =
     (let index = unat (flash_index address) in
      if index < 0 \<or> index \<ge> FLASH_SIZE \<or> index mod 8 \<noteq> 0 then Some (False, s)
      else
        (let s1 = s\<lparr>CommonCommandObject :=
                      SetupCommand (CommonCommandObject s) PROGRAM_PHRASE_COMMAND\<rparr>;
             (status, s2) = FlashBackup s1;
             data32UnionHi = Hi64 val;
             data32UnionLo = Lo64 val;
             data16UnionHiHi = Hi32 data32UnionHi;
             data16UnionHiLo = Lo32 data32UnionHi;
             data16UnionLoHi = Hi32 data32UnionLo;
             data16UnionLoLo = Lo32 data32UnionLo;
             s3 = set_data s2 index (Lo16 data16UnionLoLo);
             s4 = set_data s3 (index + 1) (Hi16 data16UnionLoLo);
             s5 = set_data s4 (index + 2) (Lo16 data16UnionLoHi);
             s6 = set_data s5 (index + 3) (Hi16 data16UnionLoHi);
             s7 = set_data s6 (index + 4) (Lo16 data16UnionHiLo);
             s8 = set_data s7 (index + 5) (Hi16 data16UnionHiLo);
             s9 = set_data s8 (index + 6) (Lo16 data16UnionHiHi);
             s10 = set_data s9 (index + 7) (Hi16 data16UnionHiHi)
         in erase_and_program status s10))"

definition Flash_Write32 :: "flash \<Rightarrow> uint32_t \<Rightarrow> uint32_t \<Rightarrow> (bool \<times> flash) option" where
  "Flash_Write32 s address val =
     (let index = unat (flash_index address) in
      if index < 0 \<or> index \<ge> FLASH_SIZE \<or> index mod 4 \<noteq> 0 then Some (False, s)
      else
        (let s1 = s\<lparr>CommonCommandObject :=
                      SetupCommand (CommonCommandObject s) PROGRAM_PHRASE_COMMAND\<rparr>;
             (status, s2) = FlashBackup s1;
             dataUnionHi = Hi32 val;
             dataUnionLo = Lo32 val;
             s3 = set_data s2 index (Lo16 dataUnionLo);
             s4 = set_data s3 (index + 1) (Hi16 dataUnionLo);
             s5 = set_data s4 (index + 2) (Lo16 dataUnionHi);
             s6 = set_data s5 (index + 3) (Hi16 dataUnionHi)
         in erase_and_program status s6))"

definition Flash_Write16 :: "flash \<Rightarrow> uint32_t \<Rightarrow> uint16_t \<Rightarrow> (bool \<times> flash) option" where
  "Flash_Write16 s address val =
     (let index = unat (flash_index address) in
      if index < 0 \<or> index \<ge> FLASH_SIZE \<or> index mod 2 \<noteq> 0 then Some (False, s)
      else
        (let s1 = s\<lparr>CommonCommandObject :=
                      SetupCommand (CommonCommandObject s) PROGRAM_PHRASE_COMMAND\<rparr>;
             (status, s2) = FlashBackup s1;
             s3 = set_data s2 index (Lo16 val);
             s4 = set_data s3 (index + 1) (Hi16 val)
         in erase_and_program status s4))"

definition Flash_Write8 :: "flash \<Rightarrow> uint32_t \<Rightarrow> uint8_t \<Rightarrow> (bool \<times> flash) option" where
  "Flash_Write8 s address val =
     (let index = unat (flash_index address) in
      if index < 0 \<or> index \<ge> FLASH_SIZE then Some (False, s)
      else
        (let s1 = s\<lparr>CommonCommandObject :=
                      SetupCommand (CommonCommandObject s) PROGRAM_PHRASE_COMMAND\<rparr>;
             (status, s2) = FlashBackup s1;
             s3 = set_data s2 index val
         in erase_and_program status s3))"

text \<open>
  What the C types guarantee of a flash state, and an idle controller: the sector and
  the mirror array have \<^verbatim>\<open>FLASH_SIZE\<close> bytes each, and CCIF is set.
\<close>

definition flash_wf :: "flash \<Rightarrow> bool" where
  "flash_wf s \<longleftrightarrow>
     length (sector s) = FLASH_SIZE \<and> length (data (CommonCommandObject s)) = FLASH_SIZE \<and>
     FTFE_FSTAT_CCIF s"

text \<open>
  Vocabulary for the statements about the write functions. \<open>only_changes s s' off n\<close>:
  the sector of \<open>s'\<close> has the length of the sector of \<open>s\<close> and differs from it
  at most at the \<open>n\<close> offsets from \<open>off\<close> on. \<open>stored_little_endian s' off n v\<close>:
  the byte at offset \<open>off + k\<close> is byte \<open>k\<close> of \<open>v\<close>, counted from the least
  significant one.
\<close>

definition only_changes :: "flash \<Rightarrow> flash \<Rightarrow> nat \<Rightarrow> nat \<Rightarrow> bool" where
  "only_changes s s' off n \<longleftrightarrow>
     length (sector s') = length (sector s) \<and>
     (\<forall>k < length (sector s). \<not> (off \<le> k \<and> k < off + n) \<longrightarrow> sector s' ! k = sector s ! k)"

definition stored_little_endian :: "flash \<Rightarrow> nat \<Rightarrow> nat \<Rightarrow> 'a::len word \<Rightarrow> bool" where
  "stored_little_endian s' off n v \<longleftrightarrow>
     (\<forall>k < n. sector s' ! (off + k) = (ucast (drop_bit (8 * k) v) :: uint8_t))"

text \<open>
  The allocation rule in the specification's words, to compare \<^verbatim>\<open>Flash_AllocateVar\<close>
  with: the smallest multiple \<open>i\<close> of the size such that the bytes at offsets \<open>i\<close> to
  \<open>i + size - 1\<close> all lie in the sector and are 0xFF, or \<open>None\<close> if there is none.
\<close>

definition Allocate_spec :: "uint8_t list \<Rightarrow> nat \<Rightarrow> nat option" where
  "Allocate_spec sec n =
     find (\<lambda>i. i + n \<le> length sec \<and> list_all (\<lambda>j. sec ! (i + j) = 0xFF) [0..<n])
          (map (\<lambda>k. k * n) [0..<length sec])"

text \<open>
  A flash state to run examples on: the given sector contents, an idle controller and
  all registers and the mirror zero.
\<close>

definition flash_example :: "uint8_t list \<Rightarrow> flash" where
  "flash_example sec =
     \<lparr>CommonCommandObject = \<lparr>command = 0, data = replicate FLASH_SIZE 0\<rparr>,
      FTFE_FSTAT_CCIF = True,
      FTFE_FCCOB0 = 0, FTFE_FCCOB1 = 0, FTFE_FCCOB2 = 0, FTFE_FCCOB3 = 0,
      FTFE_FCCOB4 = 0, FTFE_FCCOB5 = 0, FTFE_FCCOB6 = 0, FTFE_FCCOB7 = 0,
      FTFE_FCCOB8 = 0, FTFE_FCCOB9 = 0, FTFE_FCCOBA = 0, FTFE_FCCOBB = 0,
      sector = sec\<rparr>"

section \<open>The ring buffer as a queue\<close>

lemma ring_index_distinct:
  fixes s k n N :: nat
  assumes "k < n" "n < N"
  shows "(s + k) mod N \<noteq> (s + n) mod N"
proof
  assume "(s + k) mod N = (s + n) mod N"
  then have "(s + n) mod N = (s + k) mod N" by simp
  moreover have "s + k \<le> s + n" using assms by simp
  ultimately have "N dvd (s + n) - (s + k)"
    by (simp only: mod_eq_dvd_iff_nat)
  then have "N dvd n - k" by simp
  then have "N \<le> n - k" using assms by (auto dest: dvd_imp_le)
  with assms show False by simp
qed

lemma FIFO_Put_result:
  "NbBytes f < N \<Longrightarrow> fst (FIFO_Put N f d) = True"
  "\<not> NbBytes f < N \<Longrightarrow> FIFO_Put N f d = (False, f)"
  by (simp_all add: FIFO_Put_def)

lemma FIFO_Put_wf:
  assumes "fifo_wf N f" "NbBytes f < N"
  shows "fifo_wf N (snd (FIFO_Put N f d))"
  using assms by (simp add: FIFO_Put_def fifo_wf_def mod_Suc_eq)

lemma FIFO_Put_NbBytes:
  "NbBytes f < N \<Longrightarrow> NbBytes (snd (FIFO_Put N f d)) = NbBytes f + 1"
  by (simp add: FIFO_Put_def)

lemma FIFO_Put_contents:
  assumes "fifo_wf N f" "NbBytes f < N"
  shows "fifo_contents N (snd (FIFO_Put N f d)) = fifo_contents N f @ [d]"
proof -
  let ?e = "(Start f + NbBytes f) mod N"
  have e: "End f = ?e" and len: "length (Buffer f) = N"
    using assms by (simp_all add: fifo_wf_def)
  have old: "(Buffer f)[?e := d] ! ((Start f + k) mod N) = Buffer f ! ((Start f + k) mod N)"
    if "k < NbBytes f" for k
    using ring_index_distinct [OF that assms(2), of "Start f"] by simp
  have new: "(Buffer f)[?e := d] ! ?e = d"
    using len assms(2) by simp
  show ?thesis
    using assms(2) by (simp add: FIFO_Put_def fifo_contents_def e old new)
qed

lemma FIFO_Get_wf:
  assumes "fifo_wf N f" "0 < NbBytes f"
  shows "fifo_wf N (snd (FIFO_Get N f))"
proof -
  have "((Start f + 1) mod N + (NbBytes f - 1)) mod N = (Start f + 1 + (NbBytes f - 1)) mod N"
    by (simp add: mod_add_left_eq)
  also have "\<dots> = (Start f + NbBytes f) mod N" using assms by simp
  finally have "((Start f + 1) mod N + (NbBytes f - 1)) mod N = (Start f + NbBytes f) mod N" .
  moreover have "NbBytes f - 1 \<le> N" "(Start f + 1) mod N < N"
    using assms by (auto simp: fifo_wf_def)
  ultimately show ?thesis using assms by (simp add: FIFO_Get_def fifo_wf_def)
qed

lemma FIFO_Get_contents:
  assumes "fifo_wf N f" "fifo_contents N f = x # xs"
  shows "fst (FIFO_Get N f) = Some x" "fifo_contents N (snd (FIFO_Get N f)) = xs"
    "fifo_wf N (snd (FIFO_Get N f))"
proof -
  from assms(2) have pos: "0 < NbBytes f"
    by (cases "NbBytes f") (auto simp: fifo_contents_def)
  have idx: "\<And>k. ((Start f + 1) mod N + k) mod N = (Start f + Suc k) mod N"
    by (simp add: mod_add_left_eq)
  from pos have up: "[0..<NbBytes f] = 0 # map Suc [0..<NbBytes f - 1]"
    by (metis Suc_pred' map_Suc_upt upt_conv_Cons)
  from assms have "x = Buffer f ! Start f"
    and "xs = map (\<lambda>k. Buffer f ! ((Start f + Suc k) mod N)) [0..<NbBytes f - 1]"
    unfolding fifo_contents_def fifo_wf_def up by (simp_all add: comp_def)
  then show "fst (FIFO_Get N f) = Some x" "fifo_contents N (snd (FIFO_Get N f)) = xs"
    using pos idx by (simp_all add: FIFO_Get_def fifo_contents_def)
  show "fifo_wf N (snd (FIFO_Get N f))"
    using assms(1) pos by (rule FIFO_Get_wf)
qed

lemma FIFO_Init_wf:
  assumes "length (Buffer f) = N" "0 < N"
  shows "fifo_wf N (FIFO_Init f)" "fifo_contents N (FIFO_Init f) = []"
  using assms by (simp_all add: FIFO_Init_def fifo_wf_def fifo_contents_def)

lemma FIFO_Put_all_ok:
  assumes "fifo_wf N f" "NbBytes f + length bs \<le> N"
  shows "fst (FIFO_Put_all N f bs) = replicate (length bs) True
       \<and> fifo_wf N (snd (FIFO_Put_all N f bs))
       \<and> fifo_contents N (snd (FIFO_Put_all N f bs)) = fifo_contents N f @ bs"
  using assms
proof (induction bs arbitrary: f)
  case Nil
  then show ?case by simp
next
  case (Cons b bs)
  from Cons.prems have lt: "NbBytes f < N" by simp
  obtain f' where step: "FIFO_Put N f b = (True, f')"
    using FIFO_Put_result(1) [OF lt, of b] by (cases "FIFO_Put N f b") simp
  have wf': "fifo_wf N f'"
    using FIFO_Put_wf [OF Cons.prems(1) lt, of b] by (simp add: step)
  have nb: "NbBytes f' + length bs \<le> N"
    using Cons.prems(2) FIFO_Put_NbBytes [OF lt, of b] by (simp add: step)
  have c: "fifo_contents N f' = fifo_contents N f @ [b]"
    using FIFO_Put_contents [OF Cons.prems(1) lt, of b] by (simp add: step)
  show ?case
    using Cons.IH [OF wf' nb] by (auto simp add: step c split: prod.splits)
qed

lemma FIFO_Get_times_ok:
  assumes "fifo_wf N f" "fifo_contents N f = bs @ rest"
  shows "fst (FIFO_Get_times N f (length bs)) = map Some bs
       \<and> fifo_wf N (snd (FIFO_Get_times N f (length bs)))
       \<and> fifo_contents N (snd (FIFO_Get_times N f (length bs))) = rest"
  using assms
proof (induction bs arbitrary: f)
  case Nil
  then show ?case by simp
next
  case (Cons b bs)
  from Cons.prems(2) have c: "fifo_contents N f = b # (bs @ rest)" by simp
  obtain f' where step: "FIFO_Get N f = (Some b, f')"
    using FIFO_Get_contents(1) [OF Cons.prems(1) c] by (cases "FIFO_Get N f") simp
  have wf': "fifo_wf N f'"
    using FIFO_Get_contents(3) [OF Cons.prems(1) c] by (simp add: step)
  have c': "fifo_contents N f' = bs @ rest"
    using FIFO_Get_contents(2) [OF Cons.prems(1) c] by (simp add: step)
  show ?case
    using Cons.IH [OF wf' c'] by (auto simp add: step split: prod.splits)
qed

text \<open>
  The buffer as \<^verbatim>\<open>FIFO_Init\<close> leaves it: both indices are 0, so this case alone never
  wraps an index. The claim below is about every empty buffer.
\<close>

lemma FIFO_Init_put_then_get:
  assumes "length (Buffer FIFO0) = FIFO_SIZE" "length bs \<le> FIFO_SIZE"
  shows "fst (FIFO_Put_all FIFO_SIZE (FIFO_Init FIFO0) bs) = replicate (length bs) True \<and>
         fst (FIFO_Get_times FIFO_SIZE (snd (FIFO_Put_all FIFO_SIZE (FIFO_Init FIFO0) bs))
                (length bs)) = map Some bs"
proof (cases bs)
  case Nil
  then show ?thesis by simp
next
  case (Cons b bs')
  with assms(2) have pos: "0 < FIFO_SIZE" by auto
  note init = FIFO_Init_wf [OF assms(1) pos]
  have "NbBytes (FIFO_Init FIFO0) + length bs \<le> FIFO_SIZE"
    using assms(2) by (simp add: FIFO_Init_def)
  from FIFO_Put_all_ok [OF init(1) this]
  have puts: "fst (FIFO_Put_all FIFO_SIZE (FIFO_Init FIFO0) bs) = replicate (length bs) True"
    and wf: "fifo_wf FIFO_SIZE (snd (FIFO_Put_all FIFO_SIZE (FIFO_Init FIFO0) bs))"
    and c: "fifo_contents FIFO_SIZE (snd (FIFO_Put_all FIFO_SIZE (FIFO_Init FIFO0) bs)) = bs @ []"
    by (simp_all add: init(2))
  from FIFO_Get_times_ok [OF wf c] puts show ?thesis by simp
qed

text \<open>
  Claim C7. Starting from any empty ring buffer (well-formed, with \<open>NbBytes\<close> 0, its
  \<open>Start\<close> and \<open>End\<close> anywhere in the array), any sequence of bytes no longer than
  \<^verbatim>\<open>FIFO_SIZE\<close> can be put, every \<^verbatim>\<open>FIFO_Put\<close> returning true, and the same number
  of \<^verbatim>\<open>FIFO_Get\<close> calls afterwards all return true and deliver exactly those bytes in
  the order they were put, wherever the indices wrap round the end of the array.
\<close>

theorem FIFO_put_then_get_same_order:
  assumes "fifo_wf FIFO_SIZE FIFO" "NbBytes FIFO = 0" "length bs \<le> FIFO_SIZE"
  shows "fst (FIFO_Put_all FIFO_SIZE FIFO bs) = replicate (length bs) True \<and>
         fst (FIFO_Get_times FIFO_SIZE (snd (FIFO_Put_all FIFO_SIZE FIFO bs)) (length bs))
           = map Some bs"
proof -
  have room: "NbBytes FIFO + length bs \<le> FIFO_SIZE"
    using assms(2,3) by simp
  have empty: "fifo_contents FIFO_SIZE FIFO = []"
    using assms(2) by (simp add: fifo_contents_def)
  from FIFO_Put_all_ok [OF assms(1) room]
  have puts: "fst (FIFO_Put_all FIFO_SIZE FIFO bs) = replicate (length bs) True"
    and wf: "fifo_wf FIFO_SIZE (snd (FIFO_Put_all FIFO_SIZE FIFO bs))"
    and c: "fifo_contents FIFO_SIZE (snd (FIFO_Put_all FIFO_SIZE FIFO bs)) = bs @ []"
    by (simp_all add: empty)
  from FIFO_Get_times_ok [OF wf c] have
    "fst (FIFO_Get_times FIFO_SIZE (snd (FIFO_Put_all FIFO_SIZE FIFO bs)) (length bs))
       = map Some bs"
    by blast
  with puts show ?thesis by blast
qed

text \<open>
  The witness starts with both indices at 3 in an array of 4 and fills the buffer: the
  first byte goes to the last cell and the other three wrap round to cells 0, 1 and 2.
\<close>

theorem FIFO_put_then_get_same_order_witness:
  "fifo_wf 4 \<lparr>Start = 3, End = 3, NbBytes = 0, Buffer = [0, 0, 0, 0]\<rparr> \<and>
   fst (FIFO_Put_all 4 \<lparr>Start = 3, End = 3, NbBytes = 0, Buffer = [0, 0, 0, 0]\<rparr>
          [0x10, 0x20, 0x30, 0x40]) = [True, True, True, True] \<and>
   Buffer (snd (FIFO_Put_all 4 \<lparr>Start = 3, End = 3, NbBytes = 0, Buffer = [0, 0, 0, 0]\<rparr>
          [0x10, 0x20, 0x30, 0x40])) = [0x20, 0x30, 0x40, 0x10] \<and>
   fst (FIFO_Get_times 4
          (snd (FIFO_Put_all 4 \<lparr>Start = 3, End = 3, NbBytes = 0, Buffer = [0, 0, 0, 0]\<rparr>
                  [0x10, 0x20, 0x30, 0x40])) 4)
     = [Some 0x10, Some 0x20, Some 0x30, Some 0x40]"
proof -
  let ?f = "\<lparr>Start = 3, End = 3, NbBytes = 0, Buffer = [0, 0, 0, 0 :: uint8_t]\<rparr>"
  let ?bs = "[0x10, 0x20, 0x30, 0x40 :: uint8_t]"
  have wf: "fifo_wf 4 ?f" by (simp add: fifo_wf_def)
  have e: "NbBytes ?f = 0" by simp
  have len: "length ?bs \<le> 4" by simp
  have l4: "length ?bs = 4" by simp
  have r4: "replicate 4 True = [True, True, True, True]" by (simp add: numeral_eq_Suc)
  note th = FIFO_put_then_get_same_order [OF wf e len]
  have puts: "fst (FIFO_Put_all 4 ?f ?bs) = [True, True, True, True]"
    using th unfolding l4 r4 by blast
  have gets: "fst (FIFO_Get_times 4 (snd (FIFO_Put_all 4 ?f ?bs)) 4)
                = [Some 0x10, Some 0x20, Some 0x30, Some 0x40]"
    using th unfolding l4 by (simp del: FIFO_Put_all.simps FIFO_Get_times.simps)
  have buf: "Buffer (snd (FIFO_Put_all 4 ?f ?bs)) = [0x20, 0x30, 0x40, 0x10]"
    by (simp add: FIFO_Put_def)
  from wf puts buf gets show ?thesis by blast
qed

text \<open>
  Claim C8. In every buffer state, \<^verbatim>\<open>FIFO_Put\<close> on a full buffer (\<open>NbBytes\<close> equal
  to \<^verbatim>\<open>FIFO_SIZE\<close>) returns false and leaves the whole buffer (count, start, end and
  contents) as it was, and \<^verbatim>\<open>FIFO_Get\<close> on an empty buffer (\<open>NbBytes\<close> equal to 0)
  returns false and leaves the whole buffer as it was.
\<close>

theorem FIFO_full_put_empty_get_fail:
  "(NbBytes FIFO = FIFO_SIZE \<longrightarrow> FIFO_Put FIFO_SIZE FIFO b = (False, FIFO)) \<and>
   (NbBytes FIFO = 0 \<longrightarrow> FIFO_Get FIFO_SIZE FIFO = (None, FIFO))"
  by (simp add: FIFO_Put_def FIFO_Get_def)

theorem FIFO_full_put_empty_get_fail_witness:
  "FIFO_Put 4 \<lparr>Start = 1, End = 1, NbBytes = 4, Buffer = [1, 2, 3, 4]\<rparr> 9
     = (False, \<lparr>Start = 1, End = 1, NbBytes = 4, Buffer = [1, 2, 3, 4]\<rparr>) \<and>
   FIFO_Get 4 \<lparr>Start = 2, End = 2, NbBytes = 0, Buffer = [1, 2, 3, 4]\<rparr>
     = (None, \<lparr>Start = 2, End = 2, NbBytes = 0, Buffer = [1, 2, 3, 4]\<rparr>)"
  using FIFO_full_put_empty_get_fail
          [of "\<lparr>Start = 1, End = 1, NbBytes = 4, Buffer = [1, 2, 3, 4]\<rparr>" 4 9]
        FIFO_full_put_empty_get_fail
          [of "\<lparr>Start = 2, End = 2, NbBytes = 0, Buffer = [1, 2, 3, 4]\<rparr>" 4 0]
  by simp

section \<open>Sending packets\<close>

lemma FIFO_Put_all_overflow:
  assumes "fifo_wf N f"
  shows "fifo_wf N (snd (FIFO_Put_all N f bs)) \<and>
         fifo_contents N (snd (FIFO_Put_all N f bs)) = fifo_contents N f @ take (N - NbBytes f) bs \<and>
         NbBytes (snd (FIFO_Put_all N f bs)) = min N (NbBytes f + length bs)"
  using assms
proof (induction bs arbitrary: f)
  case Nil
  then show ?case by (simp add: fifo_wf_def)
next
  case (Cons b bs)
  show ?case
  proof (cases "NbBytes f < N")
    case True
    obtain f' where step: "FIFO_Put N f b = (True, f')"
      using FIFO_Put_result(1) [OF True, of b] by (cases "FIFO_Put N f b") simp
    have wf': "fifo_wf N f'"
      using FIFO_Put_wf [OF Cons.prems True, of b] by (simp add: step)
    have nb: "NbBytes f' = NbBytes f + 1"
      using FIFO_Put_NbBytes [OF True, of b] by (simp add: step)
    have c: "fifo_contents N f' = fifo_contents N f @ [b]"
      using FIFO_Put_contents [OF Cons.prems True, of b] by (simp add: step)
    have tk: "take (N - NbBytes f) (b # bs) = b # take (N - (NbBytes f + 1)) bs"
    proof -
      have "N - NbBytes f = Suc (N - (NbBytes f + 1))" using True by simp
      then show ?thesis by simp
    qed
    show ?thesis
      using Cons.IH [OF wf'] True by (auto simp add: step c nb tk split: prod.splits)
  next
    case False
    have step: "FIFO_Put N f b = (False, f)"
      using False by (rule FIFO_Put_result(2))
    have full: "N - NbBytes f = 0" "NbBytes f = N"
      using False Cons.prems by (simp_all add: fifo_wf_def)
    show ?thesis
      using Cons.IH [OF Cons.prems] by (auto simp add: step full split: prod.splits)
  qed
qed

lemma FIFO_Put_all_full:
  "\<not> NbBytes f < N \<Longrightarrow> snd (FIFO_Put_all N f bs) = f"
  by (induction bs) (auto simp add: FIFO_Put_def split: prod.splits)

lemma Packet_Put_TxFIFO:
  "TxFIFO (snd (Packet_Put N s c p1 p2 p3)) =
     snd (FIFO_Put_all N (TxFIFO s) [c, p1, p2, p3, calculateChecksum c p1 p2 p3])"
  by (simp add: Packet_Put_def UART_OutChar_def FIFO_Put_def split: prod.splits)

lemma Packet_Put_fst:
  "fst (Packet_Put N s c p1 p2 p3) \<longleftrightarrow> NbBytes (TxFIFO s) + 5 \<le> N"
  by (auto simp add: Packet_Put_def UART_OutChar_def FIFO_Put_def split: prod.splits)

lemma FIFO_Put_all_five_ok:
  "fst (FIFO_Put_all N f [b1, b2, b3, b4, b5]) = [True, True, True, True, True]
     \<longleftrightarrow> NbBytes f + 5 \<le> N"
  by (auto simp add: FIFO_Put_def split: prod.splits)

text \<open>
  Claim C3, as amended. \<^verbatim>\<open>Packet_Put\<close> returns true exactly when all five enqueues
  succeed, that is when the transmit buffer has room for five more bytes. It does not
  undo anything when it returns false: the bytes enqueued before the first failing
  enqueue stay, so the buffer then holds its old contents followed by the first
  \<open>FIFO_SIZE - NbBytes\<close> bytes of the frame, and it is exactly as before the call
  only when it was already full.
\<close>

theorem Packet_Put_keeps_partial_frame:
  assumes "fifo_wf N (TxFIFO s)"
  shows "(fst (Packet_Put N s c p1 p2 p3) \<longleftrightarrow>
            fst (FIFO_Put_all N (TxFIFO s) [c, p1, p2, p3, calculateChecksum c p1 p2 p3])
              = [True, True, True, True, True]) \<and>
         (fst (Packet_Put N s c p1 p2 p3) \<longleftrightarrow> NbBytes (TxFIFO s) + 5 \<le> N) \<and>
         fifo_contents N (TxFIFO (snd (Packet_Put N s c p1 p2 p3))) =
           fifo_contents N (TxFIFO s) @
             take (N - NbBytes (TxFIFO s)) [c, p1, p2, p3, calculateChecksum c p1 p2 p3] \<and>
         (TxFIFO (snd (Packet_Put N s c p1 p2 p3)) = TxFIFO s \<longleftrightarrow> NbBytes (TxFIFO s) = N)"
proof -
  let ?frame = "[c, p1, p2, p3, calculateChecksum c p1 p2 p3]"
  let ?tx' = "TxFIFO (snd (Packet_Put N s c p1 p2 p3))"
  have tx': "?tx' = snd (FIFO_Put_all N (TxFIFO s) ?frame)"
    by (rule Packet_Put_TxFIFO)
  note over = FIFO_Put_all_overflow [OF assms, of ?frame]
  have nb: "NbBytes ?tx' = min N (NbBytes (TxFIFO s) + 5)"
    using over unfolding tx' by simp
  have same: "?tx' = TxFIFO s \<longleftrightarrow> NbBytes (TxFIFO s) = N"
  proof
    assume "?tx' = TxFIFO s"
    then have "NbBytes (TxFIFO s) = min N (NbBytes (TxFIFO s) + 5)" using nb by simp
    then show "NbBytes (TxFIFO s) = N" by (simp add: min_def split: if_splits)
  next
    assume "NbBytes (TxFIFO s) = N"
    then have "\<not> NbBytes (TxFIFO s) < N" by simp
    then show "?tx' = TxFIFO s" unfolding tx' by (rule FIFO_Put_all_full)
  qed
  have all5: "fst (Packet_Put N s c p1 p2 p3) \<longleftrightarrow>
      fst (FIFO_Put_all N (TxFIFO s) ?frame) = [True, True, True, True, True]"
    by (simp only: Packet_Put_fst FIFO_Put_all_five_ok)
  have room: "fst (Packet_Put N s c p1 p2 p3) \<longleftrightarrow> NbBytes (TxFIFO s) + 5 \<le> N"
    by (rule Packet_Put_fst)
  have cont: "fifo_contents N ?tx' =
      fifo_contents N (TxFIFO s) @ take (N - NbBytes (TxFIFO s)) ?frame"
    using over unfolding tx' by blast
  show ?thesis
    using all5 room cont same by blast
qed

theorem Packet_Put_keeps_partial_frame_witness:
  "fifo_wf 8 \<lparr>Start = 5, End = 3, NbBytes = 6, Buffer = [4, 5, 6, 0, 0, 1, 2, 3]\<rparr> \<and>
   \<not> fst (Packet_Put 8
      \<lparr>RxFIFO = \<lparr>Start = 0, End = 0, NbBytes = 0, Buffer = replicate 8 0\<rparr>,
       TxFIFO = \<lparr>Start = 5, End = 3, NbBytes = 6, Buffer = [4, 5, 6, 0, 0, 1, 2, 3]\<rparr>,
       UART2_C2 = 0, Packet_Command = 0, Packet_Parameter1 = 0, Packet_Parameter2 = 0,
       Packet_Parameter3 = 0, Packet_Checksum = 0, ByteCount = 0\<rparr> 0x0B 0x0C 0x0D 0x0E) \<and>
   fifo_contents 8 (TxFIFO (snd (Packet_Put 8
      \<lparr>RxFIFO = \<lparr>Start = 0, End = 0, NbBytes = 0, Buffer = replicate 8 0\<rparr>,
       TxFIFO = \<lparr>Start = 5, End = 3, NbBytes = 6, Buffer = [4, 5, 6, 0, 0, 1, 2, 3]\<rparr>,
       UART2_C2 = 0, Packet_Command = 0, Packet_Parameter1 = 0, Packet_Parameter2 = 0,
       Packet_Parameter3 = 0, Packet_Checksum = 0, ByteCount = 0\<rparr> 0x0B 0x0C 0x0D 0x0E)))
     = [1, 2, 3, 4, 5, 6, 0x0B, 0x0C]"
proof -
  let ?tx = "\<lparr>Start = 5, End = 3, NbBytes = 6, Buffer = [4, 5, 6, 0, 0, 1, 2, 3 :: uint8_t]\<rparr>"
  let ?s = "\<lparr>RxFIFO = \<lparr>Start = 0, End = 0, NbBytes = 0, Buffer = replicate 8 0\<rparr>,
       TxFIFO = ?tx,
       UART2_C2 = 0, Packet_Command = 0, Packet_Parameter1 = 0, Packet_Parameter2 = 0,
       Packet_Parameter3 = 0, Packet_Checksum = 0, ByteCount = 0\<rparr>"
  have wf: "fifo_wf 8 ?tx"
    by (simp add: fifo_wf_def)
  then have wf': "fifo_wf 8 (TxFIFO ?s)" by simp
  have c: "fifo_contents 8 (TxFIFO ?s) = [1, 2, 3, 4, 5, 6]"
    by (simp add: fifo_contents_def upt_conv_Cons)
  note th = Packet_Put_keeps_partial_frame [OF wf', of "0x0B" "0x0C" "0x0D" "0x0E"]
  from th have room: "fst (Packet_Put 8 ?s 0x0B 0x0C 0x0D 0x0E) \<longleftrightarrow> NbBytes (TxFIFO ?s) + 5 \<le> 8"
    by blast
  from th have cont: "fifo_contents 8 (TxFIFO (snd (Packet_Put 8 ?s 0x0B 0x0C 0x0D 0x0E))) =
      fifo_contents 8 (TxFIFO ?s) @ take (8 - NbBytes (TxFIFO ?s))
        [0x0B, 0x0C, 0x0D, 0x0E, calculateChecksum 0x0B 0x0C 0x0D 0x0E]"
    by blast
  have n: "\<not> fst (Packet_Put 8 ?s 0x0B 0x0C 0x0D 0x0E)"
    unfolding room by simp
  have "fifo_contents 8 (TxFIFO (snd (Packet_Put 8 ?s 0x0B 0x0C 0x0D 0x0E)))
          = [1, 2, 3, 4, 5, 6, 0x0B, 0x0C]"
    unfolding cont c by simp
  with wf n show ?thesis by blast
qed

text \<open>
  Claim C3 as stated fails. With \<^verbatim>\<open>FIFO_SIZE\<close> 256 and 254 bytes waiting in the
  transmit buffer, \<^verbatim>\<open>Packet_Put(1, 2, 3, 4)\<close> enqueues 1 and 2, fails on 3 and returns
  false; the buffer is not as it was before the call: it is full, with the first two
  bytes of the frame at its end.
\<close>

theorem Packet_Put_not_atomic_counterexample:
  "\<not> fst (Packet_Put 256
      \<lparr>RxFIFO = \<lparr>Start = 0, End = 0, NbBytes = 0, Buffer = replicate 256 0\<rparr>,
       TxFIFO = \<lparr>Start = 0, End = 254, NbBytes = 254, Buffer = replicate 256 0\<rparr>,
       UART2_C2 = 0, Packet_Command = 0, Packet_Parameter1 = 0, Packet_Parameter2 = 0,
       Packet_Parameter3 = 0, Packet_Checksum = 0, ByteCount = 0\<rparr> 1 2 3 4) \<and>
   TxFIFO (snd (Packet_Put 256
      \<lparr>RxFIFO = \<lparr>Start = 0, End = 0, NbBytes = 0, Buffer = replicate 256 0\<rparr>,
       TxFIFO = \<lparr>Start = 0, End = 254, NbBytes = 254, Buffer = replicate 256 0\<rparr>,
       UART2_C2 = 0, Packet_Command = 0, Packet_Parameter1 = 0, Packet_Parameter2 = 0,
       Packet_Parameter3 = 0, Packet_Checksum = 0, ByteCount = 0\<rparr> 1 2 3 4))
     \<noteq> \<lparr>Start = 0, End = 254, NbBytes = 254, Buffer = replicate 256 0\<rparr> \<and>
   NbBytes (TxFIFO (snd (Packet_Put 256
      \<lparr>RxFIFO = \<lparr>Start = 0, End = 0, NbBytes = 0, Buffer = replicate 256 0\<rparr>,
       TxFIFO = \<lparr>Start = 0, End = 254, NbBytes = 254, Buffer = replicate 256 0\<rparr>,
       UART2_C2 = 0, Packet_Command = 0, Packet_Parameter1 = 0, Packet_Parameter2 = 0,
       Packet_Parameter3 = 0, Packet_Checksum = 0, ByteCount = 0\<rparr> 1 2 3 4))) = 256"
  by (simp add: Packet_Put_def UART_OutChar_def FIFO_Put_def)

text \<open>
  Claim C9. From an empty transmit buffer, a \<^verbatim>\<open>Packet_Put\<close> that returns true followed
  by five \<^verbatim>\<open>FIFO_Get\<close> calls on the transmit buffer delivers the command, the three
  parameters and their XOR, in that order.
\<close>

theorem Packet_Put_then_five_gets:
  assumes "fifo_wf N (TxFIFO s)" "NbBytes (TxFIFO s) = 0"
    and "fst (Packet_Put N s cmd p1 p2 p3)"
  shows "fst (FIFO_Get_times N (TxFIFO (snd (Packet_Put N s cmd p1 p2 p3))) 5) =
           [Some cmd, Some p1, Some p2, Some p3, Some (cmd XOR p1 XOR p2 XOR p3)]"
proof -
  let ?frame = "[cmd, p1, p2, p3, calculateChecksum cmd p1 p2 p3]"
  let ?tx' = "TxFIFO (snd (Packet_Put N s cmd p1 p2 p3))"
  have tx': "?tx' = snd (FIFO_Put_all N (TxFIFO s) ?frame)"
    by (rule Packet_Put_TxFIFO)
  from assms(3) have room: "5 \<le> N"
    using assms(2) by (simp add: Packet_Put_fst)
  have empty: "fifo_contents N (TxFIFO s) = []"
    using assms(2) by (simp add: fifo_contents_def)
  note over = FIFO_Put_all_overflow [OF assms(1), of ?frame]
  have wf': "fifo_wf N ?tx'"
    using over unfolding tx' by blast
  have "fifo_contents N ?tx' = fifo_contents N (TxFIFO s) @ take (N - NbBytes (TxFIFO s)) ?frame"
    using over unfolding tx' by blast
  then have c': "fifo_contents N ?tx' = ?frame @ []"
    using room by (simp add: empty assms(2))
  have len: "length ?frame = 5" by simp
  have "fst (FIFO_Get_times N ?tx' (length ?frame)) = map Some ?frame"
    using FIFO_Get_times_ok [OF wf' c'] by blast
  then show ?thesis
    unfolding len by (simp add: calculateChecksum_def del: FIFO_Get_times.simps)
qed

theorem Packet_Put_then_five_gets_witness:
  "fst (FIFO_Get_times 8 (TxFIFO (snd (Packet_Put 8
      \<lparr>RxFIFO = \<lparr>Start = 0, End = 0, NbBytes = 0, Buffer = replicate 8 0\<rparr>,
       TxFIFO = \<lparr>Start = 6, End = 6, NbBytes = 0, Buffer = replicate 8 0\<rparr>,
       UART2_C2 = 0, Packet_Command = 0, Packet_Parameter1 = 0, Packet_Parameter2 = 0,
       Packet_Parameter3 = 0, Packet_Checksum = 0, ByteCount = 0\<rparr> 0x04 0x01 0x02 0x08))) 5) =
     [Some 0x04, Some 0x01, Some 0x02, Some 0x08, Some 0x0F]"
proof -
  let ?s = "\<lparr>RxFIFO = \<lparr>Start = 0, End = 0, NbBytes = 0, Buffer = replicate 8 0\<rparr>,
       TxFIFO = \<lparr>Start = 6, End = 6, NbBytes = 0, Buffer = replicate 8 (0 :: uint8_t)\<rparr>,
       UART2_C2 = 0, Packet_Command = 0, Packet_Parameter1 = 0, Packet_Parameter2 = 0,
       Packet_Parameter3 = 0, Packet_Checksum = 0, ByteCount = 0\<rparr>"
  have wf: "fifo_wf 8 (TxFIFO ?s)" by (simp add: fifo_wf_def)
  have e: "NbBytes (TxFIFO ?s) = 0" by simp
  have ok: "fst (Packet_Put 8 ?s 0x04 0x01 0x02 0x08)"
    by (simp add: Packet_Put_def UART_OutChar_def FIFO_Put_def)
  have x: "(0x04 :: uint8_t) XOR 0x01 XOR 0x02 XOR 0x08 = 0x0F" by simp
  show ?thesis
    using Packet_Put_then_five_gets [OF wf e ok] unfolding x .
qed

section \<open>Receiving packets\<close>

lemma UART_InChar_contents:
  assumes "fifo_wf N (RxFIFO s)" "fifo_contents N (RxFIFO s) = b # rest"
  obtains f' where "UART_InChar N s = (Some b, s\<lparr>RxFIFO := f'\<rparr>)"
    and "fifo_wf N f'" and "fifo_contents N f' = rest"
proof -
  note g = FIFO_Get_contents [OF assms]
  obtain f' where step: "FIFO_Get N (RxFIFO s) = (Some b, f')"
    using g(1) by (cases "FIFO_Get N (RxFIFO s)") simp
  have "UART_InChar N s = (Some b, s\<lparr>RxFIFO := f'\<rparr>)"
    by (simp add: UART_InChar_def step)
  moreover have "fifo_wf N f'" "fifo_contents N f' = rest"
    using g(2,3) by (simp_all add: step)
  ultimately show thesis by (rule that)
qed

lemma UART_InChar_frame:
  "UART_InChar N s = (r, s0) \<Longrightarrow> s0 = s\<lparr>RxFIFO := RxFIFO s0\<rparr>"
  by (auto simp add: UART_InChar_def split: prod.splits)

text \<open>
  Claim C4. At assembly position 4, when the byte received is not the XOR of the held
  command and parameters, \<^verbatim>\<open>Packet_Get\<close> returns false, shifts the window left by one
  byte (command from parameter 1, parameter 1 from parameter 2, parameter 2 from
  parameter 3, parameter 3 from the byte received) and changes nothing else but the
  checksum field and the receive buffer; the position stays 4, so the next byte
  received completes a packet exactly when it is the XOR of the shifted window.
\<close>

theorem Packet_Get_mismatch_shifts_window:
  assumes "ByteCount s = 4"
    and "UART_InChar N s = (Some b, s0)"
    and "b \<noteq> calculateChecksum (Packet_Command s) (Packet_Parameter1 s)
                 (Packet_Parameter2 s) (Packet_Parameter3 s)"
  shows "Packet_Get N s =
           (False, s0\<lparr>Packet_Command := Packet_Parameter1 s,
                      Packet_Parameter1 := Packet_Parameter2 s,
                      Packet_Parameter2 := Packet_Parameter3 s,
                      Packet_Parameter3 := b,
                      Packet_Checksum := b\<rparr>) \<and>
         ByteCount (snd (Packet_Get N s)) = 4 \<and>
         (\<forall>b' s1. UART_InChar N (snd (Packet_Get N s)) = (Some b', s1) \<longrightarrow>
            (fst (Packet_Get N (snd (Packet_Get N s))) \<longleftrightarrow>
               b' = calculateChecksum (Packet_Parameter1 s) (Packet_Parameter2 s)
                      (Packet_Parameter3 s) b))"
proof -
  have fr: "s0 = s\<lparr>RxFIFO := RxFIFO s0\<rparr>"
    using assms(2) by (rule UART_InChar_frame)
  have fields: "ByteCount s0 = 4" "Packet_Command s0 = Packet_Command s"
    "Packet_Parameter1 s0 = Packet_Parameter1 s" "Packet_Parameter2 s0 = Packet_Parameter2 s"
    "Packet_Parameter3 s0 = Packet_Parameter3 s"
    using assms(1) by (subst fr, simp)+
  let ?s' = "s0\<lparr>Packet_Command := Packet_Parameter1 s,
                      Packet_Parameter1 := Packet_Parameter2 s,
                      Packet_Parameter2 := Packet_Parameter3 s,
                      Packet_Parameter3 := b,
                      Packet_Checksum := b\<rparr>"
  have step: "Packet_Get N s = (False, ?s')"
    using assms(3) by (simp add: Packet_Get_def assms(2) fields Let_def)
  have pos: "ByteCount (snd (Packet_Get N s)) = 4"
    by (simp add: step fields)
  have nxt: "fst (Packet_Get N ?s') \<longleftrightarrow>
               b' = calculateChecksum (Packet_Parameter1 s) (Packet_Parameter2 s)
                      (Packet_Parameter3 s) b"
    if "UART_InChar N ?s' = (Some b', s1)" for b' s1
  proof -
    have fr1: "s1 = ?s'\<lparr>RxFIFO := RxFIFO s1\<rparr>"
      using that by (rule UART_InChar_frame)
    have f1: "ByteCount s1 = 4" "Packet_Command s1 = Packet_Parameter1 s"
      "Packet_Parameter1 s1 = Packet_Parameter2 s" "Packet_Parameter2 s1 = Packet_Parameter3 s"
      "Packet_Parameter3 s1 = b"
      by (subst fr1, simp add: fields)+
    show ?thesis
      by (auto simp add: Packet_Get_def that f1 Let_def)
  qed
  show ?thesis
    using pos nxt by (simp add: step)
qed

theorem Packet_Get_mismatch_shifts_window_witness:
  "Packet_Get 8
     \<lparr>RxFIFO = \<lparr>Start = 7, End = 1, NbBytes = 2, Buffer = [0x07, 0, 0, 0, 0, 0, 0, 0x55]\<rparr>,
      TxFIFO = \<lparr>Start = 0, End = 0, NbBytes = 0, Buffer = replicate 8 0\<rparr>,
      UART2_C2 = 0, Packet_Command = 0x04, Packet_Parameter1 = 0x01, Packet_Parameter2 = 0x02,
      Packet_Parameter3 = 0x08, Packet_Checksum = 0, ByteCount = 4\<rparr>
   = (False,
     \<lparr>RxFIFO = \<lparr>Start = 0, End = 1, NbBytes = 1, Buffer = [0x07, 0, 0, 0, 0, 0, 0, 0x55]\<rparr>,
      TxFIFO = \<lparr>Start = 0, End = 0, NbBytes = 0, Buffer = replicate 8 0\<rparr>,
      UART2_C2 = 0, Packet_Command = 0x01, Packet_Parameter1 = 0x02, Packet_Parameter2 = 0x08,
      Packet_Parameter3 = 0x55, Packet_Checksum = 0x55, ByteCount = 4\<rparr>)"
proof -
  let ?s = "\<lparr>RxFIFO = \<lparr>Start = 7, End = 1, NbBytes = 2,
                       Buffer = [0x07, 0, 0, 0, 0, 0, 0, 0x55 :: uint8_t]\<rparr>,
      TxFIFO = \<lparr>Start = 0, End = 0, NbBytes = 0, Buffer = replicate 8 0\<rparr>,
      UART2_C2 = 0, Packet_Command = 0x04, Packet_Parameter1 = 0x01, Packet_Parameter2 = 0x02,
      Packet_Parameter3 = 0x08, Packet_Checksum = 0, ByteCount = 4\<rparr>"
  let ?t = "?s\<lparr>RxFIFO := \<lparr>Start = 0, End = 1, NbBytes = 1,
                       Buffer = [0x07, 0, 0, 0, 0, 0, 0, 0x55 :: uint8_t]\<rparr>\<rparr>"
  have pos: "ByteCount ?s = 4" by simp
  have rx: "UART_InChar 8 ?s = (Some 0x55, ?t)"
    by (simp add: UART_InChar_def FIFO_Get_def)
  have bad: "(0x55 :: uint8_t) \<noteq> calculateChecksum (Packet_Command ?s) (Packet_Parameter1 ?s)
                 (Packet_Parameter2 ?s) (Packet_Parameter3 ?s)"
    by (simp add: calculateChecksum_def)
  from Packet_Get_mismatch_shifts_window [OF pos rx bad]
  have "Packet_Get 8 ?s = (False, ?t\<lparr>Packet_Command := Packet_Parameter1 ?s,
                      Packet_Parameter1 := Packet_Parameter2 ?s,
                      Packet_Parameter2 := Packet_Parameter3 ?s,
                      Packet_Parameter3 := 0x55,
                      Packet_Checksum := 0x55\<rparr>)"
    by blast
  then show ?thesis by simp
qed

text \<open>
  Claim C5. From assembly position 0, with the five bytes \<open>c\<close>, \<open>p1\<close>, \<open>p2\<close>,
  \<open>p3\<close> and their XOR next in the receive buffer, five calls of \<^verbatim>\<open>Packet_Get\<close>
  return false, false, false, false, true; afterwards the command and the three
  parameters are \<open>c\<close>, \<open>p1\<close>, \<open>p2\<close>, \<open>p3\<close> and the position is 0 again.
\<close>

theorem Packet_Get_accepts_valid_frame:
  assumes "fifo_wf N (RxFIFO s)"
    and "fifo_contents N (RxFIFO s) = [c, p1, p2, p3, c XOR p1 XOR p2 XOR p3] @ rest"
    and "ByteCount s = 0"
  shows "fst (Packet_Get_times N s 5) = [False, False, False, False, True] \<and>
         Packet_Command (snd (Packet_Get_times N s 5)) = c \<and>
         Packet_Parameter1 (snd (Packet_Get_times N s 5)) = p1 \<and>
         Packet_Parameter2 (snd (Packet_Get_times N s 5)) = p2 \<and>
         Packet_Parameter3 (snd (Packet_Get_times N s 5)) = p3 \<and>
         ByteCount (snd (Packet_Get_times N s 5)) = 0"
proof -
  let ?x = "c XOR p1 XOR p2 XOR p3"
  from assms(2) have c0: "fifo_contents N (RxFIFO s) = c # [p1, p2, p3, ?x] @ rest" by simp
  obtain f1 where in1: "UART_InChar N s = (Some c, s\<lparr>RxFIFO := f1\<rparr>)"
    and wf1: "fifo_wf N f1" and c1: "fifo_contents N f1 = p1 # [p2, p3, ?x] @ rest"
    using UART_InChar_contents [OF assms(1) c0] by auto
  define s1 where "s1 = s\<lparr>RxFIFO := f1, Packet_Command := c, ByteCount := 1\<rparr>"
  have g1: "Packet_Get N s = (False, s1)"
    by (simp add: Packet_Get_def in1 assms(3) s1_def)
  have wf1': "fifo_wf N (RxFIFO s1)" and c1': "fifo_contents N (RxFIFO s1) = p1 # [p2, p3, ?x] @ rest"
    using wf1 c1 by (simp_all add: s1_def)
  obtain f2 where in2: "UART_InChar N s1 = (Some p1, s1\<lparr>RxFIFO := f2\<rparr>)"
    and wf2: "fifo_wf N f2" and c2: "fifo_contents N f2 = p2 # [p3, ?x] @ rest"
    using UART_InChar_contents [OF wf1' c1'] by auto
  define s2 where "s2 = s1\<lparr>RxFIFO := f2, Packet_Parameter1 := p1, ByteCount := 2\<rparr>"
  have bc1: "ByteCount s1 = 1" by (simp add: s1_def)
  have g2: "Packet_Get N s1 = (False, s2)"
    by (simp add: Packet_Get_def in2 bc1 s2_def)
  have wf2': "fifo_wf N (RxFIFO s2)" and c2': "fifo_contents N (RxFIFO s2) = p2 # [p3, ?x] @ rest"
    using wf2 c2 by (simp_all add: s2_def)
  obtain f3 where in3: "UART_InChar N s2 = (Some p2, s2\<lparr>RxFIFO := f3\<rparr>)"
    and wf3: "fifo_wf N f3" and c3: "fifo_contents N f3 = p3 # [?x] @ rest"
    using UART_InChar_contents [OF wf2' c2'] by auto
  define s3 where "s3 = s2\<lparr>RxFIFO := f3, Packet_Parameter2 := p2, ByteCount := 3\<rparr>"
  have bc2: "ByteCount s2 = 2" by (simp add: s2_def)
  have g3: "Packet_Get N s2 = (False, s3)"
    by (simp add: Packet_Get_def in3 bc2 s3_def)
  have wf3': "fifo_wf N (RxFIFO s3)" and c3': "fifo_contents N (RxFIFO s3) = p3 # [?x] @ rest"
    using wf3 c3 by (simp_all add: s3_def)
  obtain f4 where in4: "UART_InChar N s3 = (Some p3, s3\<lparr>RxFIFO := f4\<rparr>)"
    and wf4: "fifo_wf N f4" and c4: "fifo_contents N f4 = ?x # rest"
    using UART_InChar_contents [OF wf3' c3'] by auto
  define s4 where "s4 = s3\<lparr>RxFIFO := f4, Packet_Parameter3 := p3, ByteCount := 4\<rparr>"
  have bc3: "ByteCount s3 = 3" by (simp add: s3_def)
  have g4: "Packet_Get N s3 = (False, s4)"
    by (simp add: Packet_Get_def in4 bc3 s4_def)
  have wf4': "fifo_wf N (RxFIFO s4)" and c4': "fifo_contents N (RxFIFO s4) = ?x # rest"
    using wf4 c4 by (simp_all add: s4_def)
  obtain f5 where in5: "UART_InChar N s4 = (Some ?x, s4\<lparr>RxFIFO := f5\<rparr>)"
    using UART_InChar_contents [OF wf4' c4'] by auto
  define s5 where "s5 = s4\<lparr>RxFIFO := f5, Packet_Checksum := ?x, ByteCount := 0\<rparr>"
  have f4: "ByteCount s4 = 4" "Packet_Command s4 = c" "Packet_Parameter1 s4 = p1"
    "Packet_Parameter2 s4 = p2" "Packet_Parameter3 s4 = p3"
    by (simp_all add: s1_def s2_def s3_def s4_def)
  have g5: "Packet_Get N s4 = (True, s5)"
    by (simp add: Packet_Get_def in5 f4 s5_def calculateChecksum_def)
  have five: "(5 :: nat) = Suc (Suc (Suc (Suc (Suc 0))))" by simp
  have run: "Packet_Get_times N s 5 = ([False, False, False, False, True], s5)"
    unfolding five by (simp add: g1 g2 g3 g4 g5)
  show ?thesis
    unfolding run by (simp add: f4 s5_def)
qed

theorem Packet_Get_accepts_valid_frame_witness:
  "fst (Packet_Get_times 8
     \<lparr>RxFIFO = \<lparr>Start = 6, End = 4, NbBytes = 6,
                 Buffer = [0x02, 0x08, 0x0F, 0x77, 0, 0, 0x04, 0x01]\<rparr>,
      TxFIFO = \<lparr>Start = 0, End = 0, NbBytes = 0, Buffer = replicate 8 0\<rparr>,
      UART2_C2 = 0, Packet_Command = 0, Packet_Parameter1 = 0, Packet_Parameter2 = 0,
      Packet_Parameter3 = 0, Packet_Checksum = 0, ByteCount = 0\<rparr> 5)
     = [False, False, False, False, True] \<and>
   Packet_Command (snd (Packet_Get_times 8
     \<lparr>RxFIFO = \<lparr>Start = 6, End = 4, NbBytes = 6,
                 Buffer = [0x02, 0x08, 0x0F, 0x77, 0, 0, 0x04, 0x01]\<rparr>,
      TxFIFO = \<lparr>Start = 0, End = 0, NbBytes = 0, Buffer = replicate 8 0\<rparr>,
      UART2_C2 = 0, Packet_Command = 0, Packet_Parameter1 = 0, Packet_Parameter2 = 0,
      Packet_Parameter3 = 0, Packet_Checksum = 0, ByteCount = 0\<rparr> 5)) = 0x04"
proof -
  let ?s = "\<lparr>RxFIFO = \<lparr>Start = 6, End = 4, NbBytes = 6,
                 Buffer = [0x02, 0x08, 0x0F, 0x77, 0, 0, 0x04, 0x01 :: uint8_t]\<rparr>,
      TxFIFO = \<lparr>Start = 0, End = 0, NbBytes = 0, Buffer = replicate 8 0\<rparr>,
      UART2_C2 = 0, Packet_Command = 0, Packet_Parameter1 = 0, Packet_Parameter2 = 0,
      Packet_Parameter3 = 0, Packet_Checksum = 0, ByteCount = 0\<rparr>"
  have wf: "fifo_wf 8 (RxFIFO ?s)" by (simp add: fifo_wf_def)
  have c: "fifo_contents 8 (RxFIFO ?s) = [0x04, 0x01, 0x02, 0x08, 0x04 XOR 0x01 XOR 0x02 XOR 0x08] @ [0x77]"
    by (simp add: fifo_contents_def upt_conv_Cons)
  have pos: "ByteCount ?s = 0" by simp
  from Packet_Get_accepts_valid_frame [OF wf c pos]
  show ?thesis by blast
qed

section \<open>The flash engine\<close>

lemma FlashBackup_loop_data:
  assumes "length (data (CommonCommandObject s)) = FLASH_SIZE"
    and "length (sector s) = FLASH_SIZE" and "i \<le> FLASH_SIZE"
  shows "FlashBackup_loop i s =
           s\<lparr>CommonCommandObject := (CommonCommandObject s)
               \<lparr>data := take i (data (CommonCommandObject s)) @ drop i (sector s)\<rparr>\<rparr>"
  using assms
proof (induction i s rule: FlashBackup_loop.induct)
  case (1 i s)
  show ?case
  proof (cases "i < FLASH_SIZE")
    case True
    let ?s' = "s\<lparr>CommonCommandObject :=
                  (CommonCommandObject s)\<lparr>data := (data (CommonCommandObject s))[i := FB s i]\<rparr>\<rparr>"
    have IH: "FlashBackup_loop (Suc i) ?s' =
           ?s'\<lparr>CommonCommandObject := (CommonCommandObject ?s')
               \<lparr>data := take (Suc i) (data (CommonCommandObject ?s')) @ drop (Suc i) (sector ?s')\<rparr>\<rparr>"
      using "1.IH" [OF True] "1.prems" True by simp
    have "take (Suc i) ((data (CommonCommandObject s))[i := FB s i]) @ drop (Suc i) (sector s)
            = take i (data (CommonCommandObject s)) @ drop i (sector s)"
      using True "1.prems"
      by (simp add: take_Suc_conv_app_nth FB_def Cons_nth_drop_Suc)
    then show ?thesis
      using True by (subst FlashBackup_loop.simps) (simp add: IH)
  next
    case False
    with "1.prems" have "i = FLASH_SIZE" by simp
    then show ?thesis
      using "1.prems" by (subst FlashBackup_loop.simps) simp
  qed
qed

lemma FlashBackup_mirror:
  assumes "length (data (CommonCommandObject s)) = FLASH_SIZE" "length (sector s) = FLASH_SIZE"
  shows "FlashBackup s = (True, s\<lparr>CommonCommandObject := (CommonCommandObject s)\<lparr>data := sector s\<rparr>\<rparr>)"
  using FlashBackup_loop_data [OF assms, of 0] by (simp add: FlashBackup_def)

lemma list8:
  assumes "length xs = 8"
  shows "xs = [xs ! 0, xs ! 1, xs ! 2, xs ! 3, xs ! 4, xs ! 5, xs ! 6, xs ! 7]"
proof (rule nth_equalityI)
  show "length xs = length [xs ! 0, xs ! 1, xs ! 2, xs ! 3, xs ! 4, xs ! 5, xs ! 6, xs ! 7]"
    using assms by simp
next
  fix i assume "i < length xs"
  then have "i = 0 \<or> i = 1 \<or> i = 2 \<or> i = 3 \<or> i = 4 \<or> i = 5 \<or> i = 6 \<or> i = 7"
    using assms by arith
  then show "xs ! i = [xs ! 0, xs ! 1, xs ! 2, xs ! 3, xs ! 4, xs ! 5, xs ! 6, xs ! 7] ! i"
    by (elim disjE) simp_all
qed

lemma Flash_Erase_ok:
  assumes "FTFE_FSTAT_CCIF s"
  shows "Flash_Erase s =
     Some (True, s\<lparr>FTFE_FCCOB0 := 0x09, FTFE_FCCOB1 := 0x08, FTFE_FCCOB2 := 0x00,
                    FTFE_FCCOB3 := 0x00, sector := replicate FLASH_SIZE 0xFF\<rparr>)"
  using assms
  by (simp add: Flash_Erase_def LaunchCommand_def wait_CCIF_def SetupCommand_def
      FTFE_execute_def ERASE_FLASH_SECTOR_COMMAND_def PROGRAM_PHRASE_COMMAND_def Let_def)

lemma program_erased:
  assumes "length xs = 8"
  shows "map2 (AND) (replicate 8 (0xFF :: uint8_t))
           [xs ! 0, xs ! 1, xs ! 2, xs ! 3, xs ! 4, xs ! 5, xs ! 6, xs ! 7] = xs"
proof -
  have r: "replicate 8 (0xFF :: uint8_t) = [0xFF, 0xFF, 0xFF, 0xFF, 0xFF, 0xFF, 0xFF, 0xFF]"
    by (simp add: numeral_eq_Suc)
  have ones: "(0xFF :: uint8_t) = - 1" by simp
  have m: "(0xFF :: uint8_t) AND b = b" for b
    unfolding ones by simp
  obtain a b c d e f g h where xs: "xs = [a, b, c, d, e, f, g, h]"
    using list8 [OF assms] by blast
  show ?thesis
    unfolding r by (simp add: xs m)
qed

lemma LaunchCommand_program:
  assumes "FTFE_FSTAT_CCIF s" "command (CommonCommandObject s) = PROGRAM_PHRASE_COMMAND"
    and "length (data (CommonCommandObject s)) = FLASH_SIZE"
    and "sector s = replicate FLASH_SIZE 0xFF"
  shows "\<exists>s'. LaunchCommand s (CommonCommandObject s) = Some (True, s') \<and>
              sector s' = data (CommonCommandObject s) \<and>
              CommonCommandObject s' = CommonCommandObject s \<and> FTFE_FSTAT_CCIF s'"
  using assms program_erased [of "data (CommonCommandObject s)"]
  by (simp add: LaunchCommand_def wait_CCIF_def ProgramPhrase_def FTFE_execute_def FTFE_phrase_def
      PROGRAM_PHRASE_COMMAND_def FLASH_SIZE_def Let_def)

lemma erase_and_program_ok:
  assumes "FTFE_FSTAT_CCIF s" "command (CommonCommandObject s) = PROGRAM_PHRASE_COMMAND"
    and "length (data (CommonCommandObject s)) = FLASH_SIZE"
  shows "\<exists>s'. erase_and_program True s = Some (True, s') \<and>
              sector s' = data (CommonCommandObject s) \<and>
              CommonCommandObject s' = CommonCommandObject s \<and> FTFE_FSTAT_CCIF s'"
proof -
  let ?s1 = "s\<lparr>FTFE_FCCOB0 := 0x09, FTFE_FCCOB1 := 0x08, FTFE_FCCOB2 := 0x00,
                    FTFE_FCCOB3 := 0x00, sector := replicate FLASH_SIZE 0xFF\<rparr>"
  have e: "Flash_Erase s = Some (True, ?s1)"
    using assms(1) by (rule Flash_Erase_ok)
  have "\<exists>s'. LaunchCommand ?s1 (CommonCommandObject ?s1) = Some (True, s') \<and>
              sector s' = data (CommonCommandObject ?s1) \<and>
              CommonCommandObject s' = CommonCommandObject ?s1 \<and> FTFE_FSTAT_CCIF s'"
    using assms by (intro LaunchCommand_program) simp_all
  then obtain s' where "LaunchCommand ?s1 (CommonCommandObject ?s1) = Some (True, s')"
    and "sector s' = data (CommonCommandObject s)"
    and "CommonCommandObject s' = CommonCommandObject s" and "FTFE_FSTAT_CCIF s'"
    by auto
  then show ?thesis
    by (simp add: erase_and_program_def e)
qed

lemma write_tail:
  assumes "flash_wf s" "length xs = FLASH_SIZE"
  shows "\<exists>s'. erase_and_program True
                (s\<lparr>CommonCommandObject :=
                    (CommonCommandObject s)\<lparr>command := PROGRAM_PHRASE_COMMAND, data := xs\<rparr>\<rparr>)
                = Some (True, s') \<and> sector s' = xs \<and> flash_wf s'"
proof -
  let ?s = "s\<lparr>CommonCommandObject :=
                (CommonCommandObject s)\<lparr>command := PROGRAM_PHRASE_COMMAND, data := xs\<rparr>\<rparr>"
  have "\<exists>s'. erase_and_program True ?s = Some (True, s') \<and>
              sector s' = data (CommonCommandObject ?s) \<and>
              CommonCommandObject s' = CommonCommandObject ?s \<and> FTFE_FSTAT_CCIF s'"
    using assms by (intro erase_and_program_ok) (simp_all add: flash_wf_def)
  then obtain s' where "erase_and_program True ?s = Some (True, s')"
    and "sector s' = xs" and "data (CommonCommandObject s') = xs" and "FTFE_FSTAT_CCIF s'"
    by auto
  then show ?thesis
    using assms(2) by (auto simp add: flash_wf_def)
qed

lemma FlashBackup_setup:
  assumes "flash_wf s"
  shows "FlashBackup (s\<lparr>CommonCommandObject :=
                         SetupCommand (CommonCommandObject s) PROGRAM_PHRASE_COMMAND\<rparr>) =
         (True, s\<lparr>CommonCommandObject :=
                    (CommonCommandObject s)\<lparr>command := PROGRAM_PHRASE_COMMAND, data := sector s\<rparr>\<rparr>)"
proof -
  let ?s1 = "s\<lparr>CommonCommandObject :=
                 SetupCommand (CommonCommandObject s) PROGRAM_PHRASE_COMMAND\<rparr>"
  have "length (data (CommonCommandObject ?s1)) = FLASH_SIZE" "length (sector ?s1) = FLASH_SIZE"
    using assms by (simp_all add: flash_wf_def SetupCommand_def)
  from FlashBackup_mirror [OF this] show ?thesis
    by (simp add: SetupCommand_def)
qed

lemma Flash_Write8_unfold:
  assumes "flash_wf s" "unat (flash_index a) < FLASH_SIZE"
  shows "Flash_Write8 s a v =
         erase_and_program True
           (s\<lparr>CommonCommandObject := (CommonCommandObject s)
               \<lparr>command := PROGRAM_PHRASE_COMMAND,
                data := (sector s)[unat (flash_index a) := v]\<rparr>\<rparr>)"
  using assms(2)
  by (simp add: Flash_Write8_def Let_def FlashBackup_setup [OF assms(1)] set_data_def)

lemma Flash_Write16_unfold:
  assumes "flash_wf s" "unat (flash_index a) < FLASH_SIZE" "unat (flash_index a) mod 2 = 0"
  shows "Flash_Write16 s a v =
         erase_and_program True
           (s\<lparr>CommonCommandObject := (CommonCommandObject s)
               \<lparr>command := PROGRAM_PHRASE_COMMAND,
                data := (sector s)[unat (flash_index a) := Lo16 v,
                                   unat (flash_index a) + 1 := Hi16 v]\<rparr>\<rparr>)"
  using assms(2,3)
  by (simp add: Flash_Write16_def Let_def FlashBackup_setup [OF assms(1)] set_data_def)

lemma Flash_Write32_unfold:
  assumes "flash_wf s" "unat (flash_index a) < FLASH_SIZE" "unat (flash_index a) mod 4 = 0"
  shows "Flash_Write32 s a v =
         erase_and_program True
           (s\<lparr>CommonCommandObject := (CommonCommandObject s)
               \<lparr>command := PROGRAM_PHRASE_COMMAND,
                data := (sector s)[unat (flash_index a) := Lo16 (Lo32 v),
                                   unat (flash_index a) + 1 := Hi16 (Lo32 v),
                                   unat (flash_index a) + 2 := Lo16 (Hi32 v),
                                   unat (flash_index a) + 3 := Hi16 (Hi32 v)]\<rparr>\<rparr>)"
  using assms(2,3)
  by (simp add: Flash_Write32_def Let_def FlashBackup_setup [OF assms(1)] set_data_def)

lemma Flash_Write64_unfold:
  assumes "flash_wf s" "unat (flash_index a) < FLASH_SIZE" "unat (flash_index a) mod 8 = 0"
  shows "Flash_Write64 s a v =
         erase_and_program True
           (s\<lparr>CommonCommandObject := (CommonCommandObject s)
               \<lparr>command := PROGRAM_PHRASE_COMMAND,
                data := (sector s)[unat (flash_index a) := Lo16 (Lo32 (Lo64 v)),
                                   unat (flash_index a) + 1 := Hi16 (Lo32 (Lo64 v)),
                                   unat (flash_index a) + 2 := Lo16 (Hi32 (Lo64 v)),
                                   unat (flash_index a) + 3 := Hi16 (Hi32 (Lo64 v)),
                                   unat (flash_index a) + 4 := Lo16 (Lo32 (Hi64 v)),
                                   unat (flash_index a) + 5 := Hi16 (Lo32 (Hi64 v)),
                                   unat (flash_index a) + 6 := Lo16 (Hi32 (Hi64 v)),
                                   unat (flash_index a) + 7 := Hi16 (Hi32 (Hi64 v))]\<rparr>\<rparr>)"
  using assms(2,3)
  by (simp add: Flash_Write64_def Let_def FlashBackup_setup [OF assms(1)] set_data_def)

section \<open>Writing to the flash\<close>

lemma flash_index_offset:
  assumes "off < 256"
  shows "unat (flash_index (FLASH_DATA_START + of_nat off)) = off"
  using assms by (simp add: flash_index_def unsigned_ucast_eq unat_of_nat take_bit_eq_mod)

lemma bytes16: "Lo16 v = ucast (drop_bit (8 * 0) v)" "Hi16 v = ucast (drop_bit (8 * 1) v)"
  by (simp_all add: Lo16_def Hi16_def)

lemma bytes32:
  "Lo16 (Lo32 v) = ucast (drop_bit (8 * 0) v)" "Hi16 (Lo32 v) = ucast (drop_bit (8 * 1) v)"
  "Lo16 (Hi32 v) = ucast (drop_bit (8 * 2) v)" "Hi16 (Hi32 v) = ucast (drop_bit (8 * 3) v)"
  unfolding Lo16_def Hi16_def Lo32_def Hi32_def
  by (rule bit_word_eqI; auto simp add: bit_simps)+

lemma bytes64:
  "Lo16 (Lo32 (Lo64 v)) = ucast (drop_bit (8 * 0) v)"
  "Hi16 (Lo32 (Lo64 v)) = ucast (drop_bit (8 * 1) v)"
  "Lo16 (Hi32 (Lo64 v)) = ucast (drop_bit (8 * 2) v)"
  "Hi16 (Hi32 (Lo64 v)) = ucast (drop_bit (8 * 3) v)"
  "Lo16 (Lo32 (Hi64 v)) = ucast (drop_bit (8 * 4) v)"
  "Hi16 (Lo32 (Hi64 v)) = ucast (drop_bit (8 * 5) v)"
  "Lo16 (Hi32 (Hi64 v)) = ucast (drop_bit (8 * 6) v)"
  "Hi16 (Hi32 (Hi64 v)) = ucast (drop_bit (8 * 7) v)"
  unfolding Lo16_def Hi16_def Lo32_def Hi32_def Lo64_def Hi64_def
  by (rule bit_word_eqI; auto simp add: bit_simps)+

lemma aligned_room:
  fixes i :: nat
  shows "i < 8 \<Longrightarrow> i mod 2 = 0 \<Longrightarrow> i + 1 < 8"
    and "i < 8 \<Longrightarrow> i mod 4 = 0 \<Longrightarrow> i + 3 < 8"
    and "i < 8 \<Longrightarrow> i mod 8 = 0 \<Longrightarrow> i = 0"
  by presburger+

lemma below2: "k < 2 \<longleftrightarrow> k = 0 \<or> k = 1" for k :: nat by arith
lemma below4: "k < 4 \<longleftrightarrow> k = 0 \<or> k = 1 \<or> k = 2 \<or> k = 3" for k :: nat by arith
lemma below8:
  "k < 8 \<longleftrightarrow> k = 0 \<or> k = 1 \<or> k = 2 \<or> k = 3 \<or> k = 4 \<or> k = 5 \<or> k = 6 \<or> k = 7"
  for k :: nat by arith

lemma Flash_Write8_effect:
  assumes "flash_wf s" "unat (flash_index a) = i" "i < FLASH_SIZE"
  obtains s' where "Flash_Write8 s a v = Some (True, s')" "flash_wf s'"
    "only_changes s s' i 1" "sector s' ! i = v"
proof -
  have len: "length (sector s) = 8"
    using assms(1) by (simp add: flash_wf_def FLASH_SIZE_def)
  have u: "Flash_Write8 s a v = erase_and_program True
           (s\<lparr>CommonCommandObject := (CommonCommandObject s)
               \<lparr>command := PROGRAM_PHRASE_COMMAND, data := (sector s)[i := v]\<rparr>\<rparr>)"
    using Flash_Write8_unfold [OF assms(1), of a v] assms(2,3) by simp
  have "length ((sector s)[i := v]) = FLASH_SIZE"
    using len by (simp add: FLASH_SIZE_def)
  from write_tail [OF assms(1) this] obtain s' where
    w: "Flash_Write8 s a v = Some (True, s')" and sec: "sector s' = (sector s)[i := v]"
    and wf: "flash_wf s'"
    unfolding u by blast
  have "only_changes s s' i 1"
    by (auto simp add: only_changes_def sec)
  moreover have "sector s' ! i = v"
    using assms(3) len by (simp add: sec FLASH_SIZE_def)
  ultimately show thesis using w wf by (intro that)
qed

lemma Flash_Write16_effect:
  assumes "flash_wf s" "unat (flash_index a) = i" "i < FLASH_SIZE" "i mod 2 = 0"
  obtains s' where "Flash_Write16 s a v = Some (True, s')" "flash_wf s'"
    "only_changes s s' i 2" "stored_little_endian s' i 2 v"
proof -
  have len: "length (sector s) = 8"
    using assms(1) by (simp add: flash_wf_def FLASH_SIZE_def)
  have room: "i + 1 < 8"
    using aligned_room(1) [of i] assms(3,4) by (simp add: FLASH_SIZE_def)
  have u: "Flash_Write16 s a v = erase_and_program True
           (s\<lparr>CommonCommandObject := (CommonCommandObject s)
               \<lparr>command := PROGRAM_PHRASE_COMMAND,
                data := (sector s)[i := Lo16 v, i + 1 := Hi16 v]\<rparr>\<rparr>)"
    using Flash_Write16_unfold [OF assms(1), of a v] assms(2,3,4) by simp
  have "length ((sector s)[i := Lo16 v, i + 1 := Hi16 v]) = FLASH_SIZE"
    using len by (simp add: FLASH_SIZE_def)
  from write_tail [OF assms(1) this] obtain s' where
    w: "Flash_Write16 s a v = Some (True, s')"
    and sec: "sector s' = (sector s)[i := Lo16 v, i + 1 := Hi16 v]"
    and wf: "flash_wf s'"
    unfolding u by blast
  have "only_changes s s' i 2"
    by (auto simp add: only_changes_def sec)
  moreover have "stored_little_endian s' i 2 v"
    using room len by (auto simp add: stored_little_endian_def below2 sec bytes16)
  ultimately show thesis using w wf by (intro that)
qed

lemma Flash_Write32_effect:
  assumes "flash_wf s" "unat (flash_index a) = i" "i < FLASH_SIZE" "i mod 4 = 0"
  obtains s' where "Flash_Write32 s a v = Some (True, s')" "flash_wf s'"
    "only_changes s s' i 4" "stored_little_endian s' i 4 v"
proof -
  have len: "length (sector s) = 8"
    using assms(1) by (simp add: flash_wf_def FLASH_SIZE_def)
  have room: "i + 3 < 8"
    using aligned_room(2) [of i] assms(3,4) by (simp add: FLASH_SIZE_def)
  let ?xs = "(sector s)[i := Lo16 (Lo32 v), i + 1 := Hi16 (Lo32 v),
                        i + 2 := Lo16 (Hi32 v), i + 3 := Hi16 (Hi32 v)]"
  have u: "Flash_Write32 s a v = erase_and_program True
           (s\<lparr>CommonCommandObject := (CommonCommandObject s)
               \<lparr>command := PROGRAM_PHRASE_COMMAND, data := ?xs\<rparr>\<rparr>)"
    using Flash_Write32_unfold [OF assms(1), of a v] assms(2,3,4) by simp
  have "length ?xs = FLASH_SIZE"
    using len by (simp add: FLASH_SIZE_def)
  from write_tail [OF assms(1) this] obtain s' where
    w: "Flash_Write32 s a v = Some (True, s')" and sec: "sector s' = ?xs"
    and wf: "flash_wf s'"
    unfolding u by blast
  have "only_changes s s' i 4"
    by (auto simp add: only_changes_def sec)
  moreover have "stored_little_endian s' i 4 v"
    using room len by (auto simp add: stored_little_endian_def below4 sec bytes32)
  ultimately show thesis using w wf by (intro that)
qed

lemma Flash_Write64_effect:
  assumes "flash_wf s" "unat (flash_index a) = i" "i < FLASH_SIZE" "i mod 8 = 0"
  obtains s' where "Flash_Write64 s a v = Some (True, s')" "flash_wf s'"
    "only_changes s s' i 8" "stored_little_endian s' i 8 v"
proof -
  have len: "length (sector s) = 8"
    using assms(1) by (simp add: flash_wf_def FLASH_SIZE_def)
  have "i = 0"
    using aligned_room(3) [of i] assms(3,4) by (simp add: FLASH_SIZE_def)
  then have room: "i + 7 < length (sector s)" using len by simp
  let ?xs = "(sector s)[i := Lo16 (Lo32 (Lo64 v)), i + 1 := Hi16 (Lo32 (Lo64 v)),
                        i + 2 := Lo16 (Hi32 (Lo64 v)), i + 3 := Hi16 (Hi32 (Lo64 v)),
                        i + 4 := Lo16 (Lo32 (Hi64 v)), i + 5 := Hi16 (Lo32 (Hi64 v)),
                        i + 6 := Lo16 (Hi32 (Hi64 v)), i + 7 := Hi16 (Hi32 (Hi64 v))]"
  have u: "Flash_Write64 s a v = erase_and_program True
           (s\<lparr>CommonCommandObject := (CommonCommandObject s)
               \<lparr>command := PROGRAM_PHRASE_COMMAND, data := ?xs\<rparr>\<rparr>)"
    using Flash_Write64_unfold [OF assms(1), of a v] assms(2,3,4) by simp
  have "length ?xs = FLASH_SIZE"
    using len by (simp add: FLASH_SIZE_def)
  from write_tail [OF assms(1) this] obtain s' where
    w: "Flash_Write64 s a v = Some (True, s')" and sec: "sector s' = ?xs"
    and wf: "flash_wf s'"
    unfolding u by blast
  have "only_changes s s' i 8"
    by (auto simp add: only_changes_def sec)
  moreover have "stored_little_endian s' i 8 v"
    using room by (auto simp add: stored_little_endian_def below8 sec bytes64)
  ultimately show thesis using w wf by (intro that)
qed

lemma flash_example_wf: "length sec = 8 \<Longrightarrow> flash_wf (flash_example sec)"
  by (simp add: flash_wf_def flash_example_def FLASH_SIZE_def)

text \<open>
  Claim C6. With the controller idle, a write of any width at an in-bounds offset that
  is a multiple of the width in bytes returns true, and afterwards the sector differs
  from the sector before at most at the bytes written, which hold the bytes of the new
  value. In particular, after writing 0xABCD at offset 0 and then 0x00FF at offset 4,
  offset 0 still holds 0xABCD.
\<close>

theorem Flash_Write_changes_only_its_bytes:
  assumes "flash_wf s" "off < FLASH_SIZE"
  shows "(case Flash_Write8 s (FLASH_DATA_START + of_nat off) vb of None \<Rightarrow> False
          | Some (r, s') \<Rightarrow> r \<and> only_changes s s' off 1 \<and> sector s' ! off = vb) \<and>
         (off mod 2 = 0 \<longrightarrow>
           (case Flash_Write16 s (FLASH_DATA_START + of_nat off) vh of None \<Rightarrow> False
            | Some (r, s') \<Rightarrow> r \<and> only_changes s s' off 2 \<and> stored_little_endian s' off 2 vh)) \<and>
         (off mod 4 = 0 \<longrightarrow>
           (case Flash_Write32 s (FLASH_DATA_START + of_nat off) vw of None \<Rightarrow> False
            | Some (r, s') \<Rightarrow> r \<and> only_changes s s' off 4 \<and> stored_little_endian s' off 4 vw)) \<and>
         (off mod 8 = 0 \<longrightarrow>
           (case Flash_Write64 s (FLASH_DATA_START + of_nat off) vp of None \<Rightarrow> False
            | Some (r, s') \<Rightarrow> r \<and> only_changes s s' off 8 \<and> stored_little_endian s' off 8 vp)) \<and>
         (case Flash_Write16 s FLASH_DATA_START 0xABCD of None \<Rightarrow> False
          | Some (r1, s1) \<Rightarrow> r1 \<and>
              (case Flash_Write16 s1 (FLASH_DATA_START + 4) 0x00FF of None \<Rightarrow> False
               | Some (r2, s2) \<Rightarrow> r2 \<and> sector s2 ! 0 = 0xCD \<and> sector s2 ! 1 = 0xAB \<and>
                                  sector s2 ! 4 = 0xFF \<and> sector s2 ! 5 = 0x00))"
proof -
  have idx: "unat (flash_index (FLASH_DATA_START + of_nat off)) = off"
    using assms(2) by (intro flash_index_offset) (simp add: FLASH_SIZE_def)
  have w8: "case Flash_Write8 s (FLASH_DATA_START + of_nat off) vb of None \<Rightarrow> False
          | Some (r, s') \<Rightarrow> r \<and> only_changes s s' off 1 \<and> sector s' ! off = vb"
  proof -
    obtain s' where "Flash_Write8 s (FLASH_DATA_START + of_nat off) vb = Some (True, s')"
      "only_changes s s' off 1" "sector s' ! off = vb"
      using Flash_Write8_effect [OF assms(1) idx assms(2), of vb] by blast
    then show ?thesis by simp
  qed
  have w16: "case Flash_Write16 s (FLASH_DATA_START + of_nat off) vh of None \<Rightarrow> False
            | Some (r, s') \<Rightarrow> r \<and> only_changes s s' off 2 \<and> stored_little_endian s' off 2 vh"
    if al: "off mod 2 = 0"
  proof -
    obtain s' where "Flash_Write16 s (FLASH_DATA_START + of_nat off) vh = Some (True, s')"
      "only_changes s s' off 2" "stored_little_endian s' off 2 vh"
      using Flash_Write16_effect [OF assms(1) idx assms(2) al, of vh] by blast
    then show ?thesis by simp
  qed
  have w32: "case Flash_Write32 s (FLASH_DATA_START + of_nat off) vw of None \<Rightarrow> False
            | Some (r, s') \<Rightarrow> r \<and> only_changes s s' off 4 \<and> stored_little_endian s' off 4 vw"
    if al: "off mod 4 = 0"
  proof -
    obtain s' where "Flash_Write32 s (FLASH_DATA_START + of_nat off) vw = Some (True, s')"
      "only_changes s s' off 4" "stored_little_endian s' off 4 vw"
      using Flash_Write32_effect [OF assms(1) idx assms(2) al, of vw] by blast
    then show ?thesis by simp
  qed
  have w64: "case Flash_Write64 s (FLASH_DATA_START + of_nat off) vp of None \<Rightarrow> False
            | Some (r, s') \<Rightarrow> r \<and> only_changes s s' off 8 \<and> stored_little_endian s' off 8 vp"
    if al: "off mod 8 = 0"
  proof -
    obtain s' where "Flash_Write64 s (FLASH_DATA_START + of_nat off) vp = Some (True, s')"
      "only_changes s s' off 8" "stored_little_endian s' off 8 vp"
      using Flash_Write64_effect [OF assms(1) idx assms(2) al, of vp] by blast
    then show ?thesis by simp
  qed
  have i0: "unat (flash_index FLASH_DATA_START) = 0"
    using flash_index_offset [of 0] by simp
  have i4: "unat (flash_index (FLASH_DATA_START + 4)) = 4"
    using flash_index_offset [of 4] by simp
  obtain s1 where a1: "Flash_Write16 s FLASH_DATA_START 0xABCD = Some (True, s1)"
    and wf1: "flash_wf s1" and st1: "stored_little_endian s1 0 2 (0xABCD :: uint16_t)"
  proof -
    have "(0 :: nat) < FLASH_SIZE" "(0 :: nat) mod 2 = 0" by (simp_all add: FLASH_SIZE_def)
    from Flash_Write16_effect [OF assms(1) i0 this, of "0xABCD"] that show thesis by blast
  qed
  obtain s2 where a2: "Flash_Write16 s1 (FLASH_DATA_START + 4) 0x00FF = Some (True, s2)"
    and oc2: "only_changes s1 s2 4 2" and st2: "stored_little_endian s2 4 2 (0x00FF :: uint16_t)"
  proof -
    have "(4 :: nat) < FLASH_SIZE" "(4 :: nat) mod 2 = 0" by (simp_all add: FLASH_SIZE_def)
    from Flash_Write16_effect [OF wf1 i4 this, of "0x00FF"] that show thesis by blast
  qed
  have len1: "length (sector s1) = 8"
    using wf1 by (simp add: flash_wf_def FLASH_SIZE_def)
  have b1: "sector s1 ! 0 = 0xCD" "sector s1 ! 1 = 0xAB"
    using st1 by (simp_all add: stored_little_endian_def below2)
  have k2: "sector s2 ! 0 = sector s1 ! 0" "sector s2 ! 1 = sector s1 ! 1"
    using oc2 len1 by (simp_all add: only_changes_def)
  have b2: "sector s2 ! 4 = 0xFF" "sector s2 ! 5 = 0x00"
    using st2 by (simp_all add: stored_little_endian_def below2)
  have scen: "case Flash_Write16 s FLASH_DATA_START 0xABCD of None \<Rightarrow> False
          | Some (r1, s1) \<Rightarrow> r1 \<and>
              (case Flash_Write16 s1 (FLASH_DATA_START + 4) 0x00FF of None \<Rightarrow> False
               | Some (r2, s2) \<Rightarrow> r2 \<and> sector s2 ! 0 = 0xCD \<and> sector s2 ! 1 = 0xAB \<and>
                                  sector s2 ! 4 = 0xFF \<and> sector s2 ! 5 = 0x00)"
    using k2 b1 b2 by (simp add: a1 a2)
  show ?thesis
    using w8 w16 w32 w64 scen by (intro conjI impI)
qed

theorem Flash_Write_changes_only_its_bytes_witness:
  "flash_wf (flash_example [0x11, 0x22, 0x33, 0x44, 0x55, 0x66, 0x77, 0x88]) \<and>
   (4 :: nat) < FLASH_SIZE \<and> (4 :: nat) mod 4 = 0 \<and>
   (case Flash_Write32 (flash_example [0x11, 0x22, 0x33, 0x44, 0x55, 0x66, 0x77, 0x88])
           (FLASH_DATA_START + 4) 0xDEADBEEF of
      None \<Rightarrow> False
    | Some (r, s') \<Rightarrow> r \<and>
        only_changes (flash_example [0x11, 0x22, 0x33, 0x44, 0x55, 0x66, 0x77, 0x88]) s' 4 4 \<and>
        stored_little_endian s' 4 4 (0xDEADBEEF :: uint32_t))"
proof -
  let ?s = "flash_example [0x11, 0x22, 0x33, 0x44, 0x55, 0x66, 0x77, 0x88]"
  have wf: "flash_wf ?s" by (simp add: flash_example_wf)
  have off: "(4 :: nat) < FLASH_SIZE" by (simp add: FLASH_SIZE_def)
  from Flash_Write_changes_only_its_bytes [OF wf off, of 0 0 "0xDEADBEEF" 0]
  have "(4 :: nat) mod 4 = 0 \<longrightarrow>
     (case Flash_Write32 ?s (FLASH_DATA_START + of_nat 4) 0xDEADBEEF of None \<Rightarrow> False
      | Some (r, s') \<Rightarrow> r \<and> only_changes ?s s' 4 4 \<and>
          stored_little_endian s' 4 4 (0xDEADBEEF :: uint32_t))"
    by (elim conjE) assumption
  then show ?thesis using wf off by simp
qed

text \<open>
  Claim C10. A write of 16, 32 or 64 bits that goes through stores the value in
  little-endian order: with the controller idle and the offset in bounds and a multiple
  of the width in bytes, the write returns true and afterwards the byte at offset
  \<open>off + k\<close> is byte \<open>k\<close> of the value counted from the least significant one; the
  byte at the lowest offset is the least significant byte.
\<close>

theorem Flash_Write_little_endian:
  assumes "flash_wf s" "off < FLASH_SIZE"
  shows "(off mod 2 = 0 \<longrightarrow>
           (case Flash_Write16 s (FLASH_DATA_START + of_nat off) vh of None \<Rightarrow> False
            | Some (r, s') \<Rightarrow> r \<and> sector s' ! off = ucast vh \<and>
                (\<forall>k < 2. sector s' ! (off + k) = ucast (drop_bit (8 * k) vh)))) \<and>
         (off mod 4 = 0 \<longrightarrow>
           (case Flash_Write32 s (FLASH_DATA_START + of_nat off) vw of None \<Rightarrow> False
            | Some (r, s') \<Rightarrow> r \<and> sector s' ! off = ucast vw \<and>
                (\<forall>k < 4. sector s' ! (off + k) = ucast (drop_bit (8 * k) vw)))) \<and>
         (off mod 8 = 0 \<longrightarrow>
           (case Flash_Write64 s (FLASH_DATA_START + of_nat off) vp of None \<Rightarrow> False
            | Some (r, s') \<Rightarrow> r \<and> sector s' ! off = ucast vp \<and>
                (\<forall>k < 8. sector s' ! (off + k) = ucast (drop_bit (8 * k) vp))))"
proof -
  have idx: "unat (flash_index (FLASH_DATA_START + of_nat off)) = off"
    using assms(2) by (intro flash_index_offset) (simp add: FLASH_SIZE_def)
  have lsb: "sector s' ! off = ucast v" if "stored_little_endian s' off n v" "0 < n"
    for s' n and v :: "'a::len word"
    using that by (auto simp add: stored_little_endian_def)
  have w16: "case Flash_Write16 s (FLASH_DATA_START + of_nat off) vh of None \<Rightarrow> False
            | Some (r, s') \<Rightarrow> r \<and> sector s' ! off = ucast vh \<and>
                (\<forall>k < 2. sector s' ! (off + k) = ucast (drop_bit (8 * k) vh))"
    if al: "off mod 2 = 0"
  proof -
    obtain s' where "Flash_Write16 s (FLASH_DATA_START + of_nat off) vh = Some (True, s')"
      and st: "stored_little_endian s' off 2 vh"
      using Flash_Write16_effect [OF assms(1) idx assms(2) al, of vh] by blast
    moreover have "sector s' ! off = ucast vh" using st by (rule lsb) simp
    ultimately show ?thesis by (simp add: stored_little_endian_def)
  qed
  have w32: "case Flash_Write32 s (FLASH_DATA_START + of_nat off) vw of None \<Rightarrow> False
            | Some (r, s') \<Rightarrow> r \<and> sector s' ! off = ucast vw \<and>
                (\<forall>k < 4. sector s' ! (off + k) = ucast (drop_bit (8 * k) vw))"
    if al: "off mod 4 = 0"
  proof -
    obtain s' where "Flash_Write32 s (FLASH_DATA_START + of_nat off) vw = Some (True, s')"
      and st: "stored_little_endian s' off 4 vw"
      using Flash_Write32_effect [OF assms(1) idx assms(2) al, of vw] by blast
    moreover have "sector s' ! off = ucast vw" using st by (rule lsb) simp
    ultimately show ?thesis by (simp add: stored_little_endian_def)
  qed
  have w64: "case Flash_Write64 s (FLASH_DATA_START + of_nat off) vp of None \<Rightarrow> False
            | Some (r, s') \<Rightarrow> r \<and> sector s' ! off = ucast vp \<and>
                (\<forall>k < 8. sector s' ! (off + k) = ucast (drop_bit (8 * k) vp))"
    if al: "off mod 8 = 0"
  proof -
    obtain s' where "Flash_Write64 s (FLASH_DATA_START + of_nat off) vp = Some (True, s')"
      and st: "stored_little_endian s' off 8 vp"
      using Flash_Write64_effect [OF assms(1) idx assms(2) al, of vp] by blast
    moreover have "sector s' ! off = ucast vp" using st by (rule lsb) simp
    ultimately show ?thesis by (simp add: stored_little_endian_def)
  qed
  show ?thesis
    using w16 w32 w64 by (intro conjI impI)
qed

theorem Flash_Write_little_endian_witness:
  "flash_wf (flash_example [0x11, 0x22, 0x33, 0x44, 0x55, 0x66, 0x77, 0x88]) \<and>
   (0 :: nat) < FLASH_SIZE \<and> (0 :: nat) mod 8 = 0 \<and>
   (case Flash_Write64 (flash_example [0x11, 0x22, 0x33, 0x44, 0x55, 0x66, 0x77, 0x88])
           FLASH_DATA_START 0x0102030405060708 of
      None \<Rightarrow> False
    | Some (r, s') \<Rightarrow> r \<and> sector s' ! 0 = 0x08 \<and>
        (\<forall>k < 8. sector s' ! (0 + k) = ucast (drop_bit (8 * k) (0x0102030405060708 :: uint64_t))))"
proof -
  let ?s = "flash_example [0x11, 0x22, 0x33, 0x44, 0x55, 0x66, 0x77, 0x88]"
  have wf: "flash_wf ?s" by (simp add: flash_example_wf)
  have off: "(0 :: nat) < FLASH_SIZE" by (simp add: FLASH_SIZE_def)
  from Flash_Write_little_endian [OF wf off, of 0 0 "0x0102030405060708"]
  have "(0 :: nat) mod 8 = 0 \<longrightarrow>
     (case Flash_Write64 ?s (FLASH_DATA_START + of_nat 0) 0x0102030405060708 of None \<Rightarrow> False
      | Some (r, s') \<Rightarrow> r \<and> sector s' ! 0 = ucast (0x0102030405060708 :: uint64_t) \<and>
          (\<forall>k < 8. sector s' ! (0 + k) = ucast (drop_bit (8 * k) (0x0102030405060708 :: uint64_t))))"
    by (elim conjE) assumption
  moreover have "(ucast (0x0102030405060708 :: uint64_t) :: uint8_t) = 0x08" by simp
  ultimately show ?thesis using wf off by (auto split: option.splits)
qed

text \<open>
  Claim C2: the defect. The offset of the address is cut down to its low 8 bits before
  the bounds test, so an address 256 bytes past \<^verbatim>\<open>FLASH_DATA_START\<close>, far outside
  the 8-byte sector, passes the test as offset 0: \<^verbatim>\<open>Flash_Write16\<close> returns true and
  overwrites the first two bytes of the sector.
\<close>

theorem Flash_Write16_wraps_address:
  "map_option (\<lambda>(r, s'). (r, sector s'))
     (Flash_Write16 (flash_example [0xFF, 0xFF, 0xFF, 0xFF, 0xFF, 0xFF, 0xFF, 0xFF])
        (FLASH_DATA_START + 0x100) 0x1234)
   = Some (True, [0x34, 0x12, 0xFF, 0xFF, 0xFF, 0xFF, 0xFF, 0xFF])"
  by code_simp

text \<open>
  What does hold of the bounds test: an address whose offset from
  \<^verbatim>\<open>FLASH_DATA_START\<close> is below 256 (so that cutting it to 8 bits loses nothing) is
  rejected, with the state untouched, when the offset is not below \<^verbatim>\<open>FLASH_SIZE\<close> or
  not a multiple of the width in bytes.
\<close>

lemma Flash_Write_rejects_small_offsets:
  assumes "unat (address - FLASH_DATA_START) < 256"
  shows "unat (address - FLASH_DATA_START) \<ge> FLASH_SIZE \<Longrightarrow> Flash_Write8 s address vb = Some (False, s)"
    and "unat (address - FLASH_DATA_START) \<ge> FLASH_SIZE \<or> unat (address - FLASH_DATA_START) mod 2 \<noteq> 0
           \<Longrightarrow> Flash_Write16 s address vh = Some (False, s)"
    and "unat (address - FLASH_DATA_START) \<ge> FLASH_SIZE \<or> unat (address - FLASH_DATA_START) mod 4 \<noteq> 0
           \<Longrightarrow> Flash_Write32 s address vw = Some (False, s)"
    and "unat (address - FLASH_DATA_START) \<ge> FLASH_SIZE \<or> unat (address - FLASH_DATA_START) mod 8 \<noteq> 0
           \<Longrightarrow> Flash_Write64 s address vp = Some (False, s)"
proof -
  have i: "unat (flash_index address) = unat (address - FLASH_DATA_START)"
    using assms by (simp add: flash_index_def unsigned_ucast_eq take_bit_eq_mod)
  show "unat (address - FLASH_DATA_START) \<ge> FLASH_SIZE \<Longrightarrow> Flash_Write8 s address vb = Some (False, s)"
    by (simp add: Flash_Write8_def i)
  show "unat (address - FLASH_DATA_START) \<ge> FLASH_SIZE \<or> unat (address - FLASH_DATA_START) mod 2 \<noteq> 0
           \<Longrightarrow> Flash_Write16 s address vh = Some (False, s)"
    by (auto simp add: Flash_Write16_def i)
  show "unat (address - FLASH_DATA_START) \<ge> FLASH_SIZE \<or> unat (address - FLASH_DATA_START) mod 4 \<noteq> 0
           \<Longrightarrow> Flash_Write32 s address vw = Some (False, s)"
    by (auto simp add: Flash_Write32_def i)
  show "unat (address - FLASH_DATA_START) \<ge> FLASH_SIZE \<or> unat (address - FLASH_DATA_START) mod 8 \<noteq> 0
           \<Longrightarrow> Flash_Write64 s address vp = Some (False, s)"
    by (auto simp add: Flash_Write64_def i)
qed

lemma Flash_Write16_odd_offset_fails:
  "Flash_Write16 s (FLASH_DATA_START + 1) 0x1234 = Some (False, s)"
  using Flash_Write_rejects_small_offsets(2) [of "FLASH_DATA_START + 1" s "0x1234"]
  by simp

text \<open>
  Claim C1: the defect. \<^verbatim>\<open>addressFound\<close> starts true and is never set back to true.
  On a sector with no erased byte the outer loop never looks at the flag, and the
  function returns true with the address \<^verbatim>\<open>FLASH_DATA_START + 255\<close>, outside the
  sector, where the rule of the specification finds nothing. And once a slot has its
  first byte erased but not its second, the flag stays false: the erased slot at offset 2
  is passed over and the function returns false, where the rule finds offset 2.
\<close>

theorem Flash_AllocateVar_flag_never_reset:
  "Flash_AllocateVar (flash_example [0, 0, 0, 0, 0, 0, 0, 0]) 0 1 = (True, FLASH_DATA_START + 255) \<and>
   Allocate_spec [0, 0, 0, 0, 0, 0, 0, 0] 1 = None \<and>
   Flash_AllocateVar (flash_example [0xFF, 0x00, 0xFF, 0xFF, 0xFF, 0xFF, 0xFF, 0xFF]) 0 2 = (False, 0) \<and>
   Allocate_spec [0xFF, 0x00, 0xFF, 0xFF, 0xFF, 0xFF, 0xFF, 0xFF] 2 = Some 2"
  by code_simp

text \<open>The scenario of the claim does hold: on an erased sector a 2-byte slot is found at
  the base address.\<close>

lemma Flash_AllocateVar_erased_sector:
  assumes "sector s = replicate FLASH_SIZE 0xFF"
  shows "Flash_AllocateVar s variable 2 = (True, FLASH_DATA_START)"
  using assms
  by (simp add: Flash_AllocateVar_def alloc_outer.simps alloc_inner.simps FB_def FLASH_SIZE_def)

lemma alloc_inner_free:
  assumes "\<forall>j'. j \<le> j' \<and> j' < n \<longrightarrow> i + j' < FLASH_SIZE \<and> FB s (i + j') = 0xFF"
  shows "alloc_inner s n i j True = True"
  using assms
proof (induction s n i j "True" rule: alloc_inner.induct)
  case (1 s n i j)
  show ?case
  proof (cases "j < n")
    case True
    with "1.prems" have here: "i + j < FLASH_SIZE" "FB s (i + j) = 0xFF" by auto
    have "alloc_inner s n i (j + 1) True = True"
      using True here "1.prems" by (intro "1.hyps") auto
    then show ?thesis
      using True here by (subst alloc_inner.simps) simp
  next
    case False
    then show ?thesis by (subst alloc_inner.simps) simp
  qed
qed

lemma alloc_outer_skip:
  assumes "0 < n" "i < FLASH_SIZE" "FB s i \<noteq> 0xFF"
  shows "alloc_outer s n i found idx = alloc_outer s n (i + n) found idx"
  using assms by (subst alloc_outer.simps) simp

lemma alloc_outer_hit:
  assumes "0 < n" "i < FLASH_SIZE"
    and "\<forall>j < n. i + j < FLASH_SIZE \<and> FB s (i + j) = 0xFF"
  shows "alloc_outer s n i True idx = (True, of_nat i)"
proof -
  have first: "FB s i = 0xFF" using assms(1,3) by force
  have "alloc_inner s n i 1 True = True"
    using assms(3) by (intro alloc_inner_free) auto
  then show ?thesis
    using assms(1,2) first by (subst alloc_outer.simps) simp
qed

lemma alloc_outer_bump:
  assumes "0 < n" "(m + k) * n < FLASH_SIZE"
    and "\<forall>k' < k. FB s ((m + k') * n) \<noteq> 0xFF"
    and "\<forall>j < n. (m + k) * n + j < FLASH_SIZE \<and> FB s ((m + k) * n + j) = 0xFF"
  shows "alloc_outer s n (m * n) True idx = (True, of_nat ((m + k) * n))"
  using assms
proof (induction k arbitrary: m)
  case 0
  then show ?case using alloc_outer_hit [of n "m * n" s idx] by simp
next
  case (Suc k)
  have lt: "m * n < FLASH_SIZE"
  proof -
    have "m * n \<le> (m + Suc k) * n" by (intro mult_le_mono1) simp
    with Suc.prems(2) show ?thesis by simp
  qed
  have used: "FB s (m * n) \<noteq> 0xFF"
    using Suc.prems(3) by (elim allE [of _ 0]) simp
  have step: "alloc_outer s n (m * n) True idx = alloc_outer s n (Suc m * n) True idx"
    using alloc_outer_skip [OF Suc.prems(1) lt used, of True idx] by (simp add: add.commute)
  have "alloc_outer s n (Suc m * n) True idx = (True, of_nat ((Suc m + k) * n))"
  proof (rule Suc.IH [OF Suc.prems(1)])
    show "(Suc m + k) * n < FLASH_SIZE" using Suc.prems(2) by simp
    show "\<forall>k'<k. FB s ((Suc m + k') * n) \<noteq> 0xFF"
      using Suc.prems(3) by (auto dest: spec [of _ "Suc _"])
    show "\<forall>j<n. (Suc m + k) * n + j < FLASH_SIZE \<and> FB s ((Suc m + k) * n + j) = 0xFF"
      using Suc.prems(4) by simp
  qed
  then show ?case by (simp add: step)
qed

text \<open>
  Where \<^verbatim>\<open>Flash_AllocateVar\<close> does follow the rule: when every slot before the first
  entirely erased one has a programmed first byte (as after allocating and writing
  slots one after the other), it returns true with the address of that slot.
\<close>

lemma ucast_index:
  assumes "x < 256"
  shows "(ucast (of_nat x :: uint8_t) :: uint32_t) = of_nat x"
proof (rule word_unat_eq_iff [THEN iffD2])
  show "unat (ucast (of_nat x :: uint8_t) :: uint32_t) = unat (of_nat x :: uint32_t)"
    using assms by (simp add: unsigned_ucast_eq unat_of_nat take_bit_eq_mod)
qed

lemma Flash_AllocateVar_bump:
  assumes "n = 1 \<or> n = 2 \<or> n = 4" "k * unat n < FLASH_SIZE"
    and "\<forall>k' < k. FB s (k' * unat n) \<noteq> 0xFF"
    and "\<forall>j < unat n. k * unat n + j < FLASH_SIZE \<and> FB s (k * unat n + j) = 0xFF"
  shows "Flash_AllocateVar s variable n = (True, FLASH_DATA_START + of_nat (k * unat n))"
proof -
  have pos: "0 < unat n" using assms(1) by auto
  have small: "k * unat n < 256" using assms(2) by (simp add: FLASH_SIZE_def)
  have "alloc_outer s (unat n) (0 * unat n) True (- 1) = (True, of_nat ((0 + k) * unat n))"
    using assms(2,3,4) by (intro alloc_outer_bump [OF pos]) simp_all
  then have "alloc_outer s (unat n) 0 True (- 1) = (True, of_nat (k * unat n))"
    by simp
  moreover note ucast_index [OF small]
  ultimately show ?thesis
    using assms(1) by (simp add: Flash_AllocateVar_def del: of_nat_mult)
qed


lemma Flash_AllocateVar_bump_example:
  "Flash_AllocateVar (flash_example [0x26, 0x81, 0x01, 0x00, 0xFF, 0xFF, 0xFF, 0xFF]) 0 2
     = (True, FLASH_DATA_START + 4)"
proof -
  let ?s = "flash_example [0x26, 0x81, 0x01, 0x00, 0xFF, 0xFF, 0xFF, 0xFF]"
  have u: "unat (2 :: uint8_t) = 2" by simp
  have a: "(2 :: uint8_t) = 1 \<or> (2 :: uint8_t) = 2 \<or> (2 :: uint8_t) = 4" by simp
  have b: "2 * unat (2 :: uint8_t) < FLASH_SIZE" by (simp add: FLASH_SIZE_def)
  have c: "\<forall>k' < 2. FB ?s (k' * unat (2 :: uint8_t)) \<noteq> 0xFF"
    by (simp add: below2 FB_def flash_example_def)
  have d: "\<forall>j < unat (2 :: uint8_t). 2 * unat (2 :: uint8_t) + j < FLASH_SIZE \<and>
             FB ?s (2 * unat (2 :: uint8_t) + j) = 0xFF"
    by (simp add: below2 FB_def flash_example_def FLASH_SIZE_def)
  from Flash_AllocateVar_bump [OF a b c d, of 0] show ?thesis by simp
qed

end
